theory Spec2Isabelle
  imports Complex_Main
begin

section \<open>JavaScript numbers\<close>

text \<open>
  A JavaScript number is modelled as a real number, one of the two infinities, or NaN.
  Rounding of the binary representation and the sign of zero are not modelled: every
  finite operation is exact. What is modelled is where a number stops being one: NaN
  makes every comparison false and passes through \<open>Math.min\<close> and \<open>Math.max\<close>.
\<close>

datatype jsnum = NaN | NegInf | Fin real | PosInf

fun js_neg :: "jsnum \<Rightarrow> jsnum" where
  "js_neg NaN = NaN"
| "js_neg NegInf = PosInf"
| "js_neg PosInf = NegInf"
| "js_neg (Fin a) = Fin (- a)"

fun js_add :: "jsnum \<Rightarrow> jsnum \<Rightarrow> jsnum" where
  "js_add (Fin a) (Fin b) = Fin (a + b)"
| "js_add NaN _ = NaN"
| "js_add _ NaN = NaN"
| "js_add PosInf NegInf = NaN"
| "js_add NegInf PosInf = NaN"
| "js_add PosInf _ = PosInf"
| "js_add NegInf _ = NegInf"
| "js_add _ PosInf = PosInf"
| "js_add _ NegInf = NegInf"

definition js_sub :: "jsnum \<Rightarrow> jsnum \<Rightarrow> jsnum" where
  "js_sub a b = js_add a (js_neg b)"

text \<open>The sign of an infinite product or quotient: the infinity on the side of \<open>s\<close>.\<close>

definition signed_inf :: "real \<Rightarrow> jsnum" where
  "signed_inf s = (if s = 0 then NaN else if 0 < s then PosInf else NegInf)"

fun js_mul :: "jsnum \<Rightarrow> jsnum \<Rightarrow> jsnum" where
  "js_mul (Fin a) (Fin b) = Fin (a * b)"
| "js_mul NaN _ = NaN"
| "js_mul _ NaN = NaN"
| "js_mul PosInf PosInf = PosInf"
| "js_mul NegInf NegInf = PosInf"
| "js_mul PosInf NegInf = NegInf"
| "js_mul NegInf PosInf = NegInf"
| "js_mul PosInf (Fin b) = signed_inf b"
| "js_mul NegInf (Fin b) = signed_inf (- b)"
| "js_mul (Fin a) PosInf = signed_inf a"
| "js_mul (Fin a) NegInf = signed_inf (- a)"

text \<open>
  Division by zero gives an infinity with the sign of the numerator, and NaN for
  \<open>0 / 0\<close> (a zero is taken as positive).
\<close>

fun js_div :: "jsnum \<Rightarrow> jsnum \<Rightarrow> jsnum" where
  "js_div (Fin a) (Fin b) = (if b = 0 then signed_inf a else Fin (a / b))"
| "js_div NaN _ = NaN"
| "js_div _ NaN = NaN"
| "js_div (Fin a) _ = Fin 0"
| "js_div PosInf (Fin b) = (if 0 \<le> b then PosInf else NegInf)"
| "js_div NegInf (Fin b) = (if 0 \<le> b then NegInf else PosInf)"
| "js_div _ _ = NaN"

fun js_lt :: "jsnum \<Rightarrow> jsnum \<Rightarrow> bool" where
  "js_lt (Fin a) (Fin b) = (a < b)"
| "js_lt NaN _ = False"
| "js_lt _ NaN = False"
| "js_lt _ NegInf = False"
| "js_lt NegInf _ = True"
| "js_lt PosInf _ = False"
| "js_lt _ PosInf = True"

fun js_le :: "jsnum \<Rightarrow> jsnum \<Rightarrow> bool" where
  "js_le (Fin a) (Fin b) = (a \<le> b)"
| "js_le NaN _ = False"
| "js_le _ NaN = False"
| "js_le NegInf _ = True"
| "js_le _ PosInf = True"
| "js_le _ NegInf = False"
| "js_le PosInf _ = False"

definition js_gt :: "jsnum \<Rightarrow> jsnum \<Rightarrow> bool" where
  "js_gt a b = js_lt b a"

definition js_ge :: "jsnum \<Rightarrow> jsnum \<Rightarrow> bool" where
  "js_ge a b = js_le b a"

text \<open>\<open>Math.min\<close> and \<open>Math.max\<close> of two arguments: NaN if either is NaN.\<close>

definition Math_min :: "jsnum \<Rightarrow> jsnum \<Rightarrow> jsnum" where
  "Math_min a b = (if a = NaN \<or> b = NaN then NaN else if js_le a b then a else b)"

definition Math_max :: "jsnum \<Rightarrow> jsnum \<Rightarrow> jsnum" where
  "Math_max a b = (if a = NaN \<or> b = NaN then NaN else if js_le a b then b else a)"

fun Math_round :: "jsnum \<Rightarrow> jsnum" where
  "Math_round (Fin a) = Fin (of_int \<lfloor>a + 1 / 2\<rfloor>)"
| "Math_round v = v"

text \<open>A natural number and an integer as JavaScript numbers, and the test for a real number.\<close>

definition fin_nat :: "nat \<Rightarrow> jsnum" where
  "fin_nat n = Fin (of_nat n)"

definition fin_int :: "int \<Rightarrow> jsnum" where
  "fin_int n = Fin (of_int n)"

fun is_fin :: "jsnum \<Rightarrow> bool" where
  "is_fin (Fin r) = True"
| "is_fin v = False"

text \<open>\<open>function clamp(value, min, max)\<close>\<close>

definition clamp :: "jsnum \<Rightarrow> jsnum \<Rightarrow> jsnum \<Rightarrow> jsnum" where
  "clamp v lo hi = Math_max lo (Math_min hi v)"

section \<open>JSON values\<close>

text \<open>
  A value as \<open>JSON.parse\<close> builds it. An object is the list of its keys and values, each
  key once. A property read that finds nothing is \<open>undefined\<close>, here \<open>None\<close>.
\<close>

datatype json =
    JNull
  | JBool bool
  | JNum jsnum
  | JStr string
  | JArr "json list"
  | JObj "(string \<times> json) list"

section \<open>Geometry\<close>

text \<open>
  A box \<open>{x, y, width, height}\<close> is both the pixel bounding box of a match and the
  rectangle in page units, a size is \<open>{width, height}\<close>.
\<close>

record 'n box =
  box_x :: 'n
  box_y :: 'n
  box_width :: 'n
  box_height :: 'n

record 'n size2 =
  size_width :: 'n
  size_height :: 'n

text \<open>\<open>function isBboxPlausible(bboxPx, pageWidth, pageHeight)\<close>; a null box is \<open>None\<close>.\<close>

definition isBboxPlausible :: "jsnum box option \<Rightarrow> jsnum \<Rightarrow> jsnum \<Rightarrow> bool" where
  "isBboxPlausible bboxPx pageWidth pageHeight =
     (case bboxPx of
        None \<Rightarrow> False
      | Some b \<Rightarrow>
          (let wr = js_div (box_width b) pageWidth;
               hr = js_div (box_height b) pageHeight
           in if js_lt wr (Fin 0.05) \<or> js_gt wr (Fin 0.42) then False
              else if js_lt hr (Fin 0.015) \<or> js_gt hr (Fin 0.22) then False
              else True))"

text \<open>\<open>function imageBboxToPdfRect(bboxPx, renderSize, pageSize)\<close>\<close>

definition imageBboxToPdfRect :: "jsnum box \<Rightarrow> jsnum size2 \<Rightarrow> jsnum size2 \<Rightarrow> jsnum box" where
  "imageBboxToPdfRect bboxPx renderSize pageSize =
     (let x = js_mul (js_div (box_x bboxPx) (size_width renderSize)) (size_width pageSize);
          yTop = js_mul (js_div (box_y bboxPx) (size_height renderSize)) (size_height pageSize);
          width = js_mul (js_div (box_width bboxPx) (size_width renderSize)) (size_width pageSize);
          height = js_mul (js_div (box_height bboxPx) (size_height renderSize)) (size_height pageSize);
          y = js_sub (js_sub (size_height pageSize) yTop) height
      in \<lparr> box_x = clamp x (Fin 0) (size_width pageSize),
           box_y = clamp y (Fin 0) (size_height pageSize),
           box_width = clamp width (Fin 1) (size_width pageSize),
           box_height = clamp height (Fin 1) (size_height pageSize) \<rparr>)"

text \<open>\<open>function getStableFooterPdfRect(pageSize, footerRatio)\<close>\<close>

definition getStableFooterPdfRect :: "jsnum size2 \<Rightarrow> jsnum \<Rightarrow> jsnum box" where
  "getStableFooterPdfRect pageSize footerRatio =
     \<lparr> box_x = Fin 0, box_y = Fin 0, box_width = size_width pageSize,
       box_height = js_mul (size_height pageSize) footerRatio \<rparr>"

text \<open>
  The inverse mapping of the round-trip property, from the specification's words (the
  source has no such function): each axis is scaled back linearly and the vertical flip
  is undone, \<open>yPx = ((pageH - yDoc - heightDoc) / pageH) * renderH\<close>.
\<close>

definition pdfRectToImageBbox_spec :: "jsnum box \<Rightarrow> jsnum size2 \<Rightarrow> jsnum size2 \<Rightarrow> jsnum box" where
  "pdfRectToImageBbox_spec rect renderSize pageSize =
     \<lparr> box_x = js_mul (js_div (box_x rect) (size_width pageSize)) (size_width renderSize),
       box_y = js_mul (js_div (js_sub (js_sub (size_height pageSize) (box_y rect)) (box_height rect))
                 (size_height pageSize)) (size_height renderSize),
       box_width = js_mul (js_div (box_width rect) (size_width pageSize)) (size_width renderSize),
       box_height = js_mul (js_div (box_height rect) (size_height pageSize)) (size_height renderSize) \<rparr>"

text \<open>Two numbers are within a tolerance of each other: both finite, and the distance bounded.\<close>

fun js_within :: "real \<Rightarrow> jsnum \<Rightarrow> jsnum \<Rightarrow> bool" where
  "js_within tol (Fin a) (Fin b) = (\<bar>a - b\<bar> \<le> tol)"
| "js_within tol _ _ = False"

definition box_within :: "real \<Rightarrow> jsnum box \<Rightarrow> jsnum box \<Rightarrow> bool" where
  "box_within tol a b =
     (js_within tol (box_x a) (box_x b) \<and> js_within tol (box_y a) (box_y b) \<and>
      js_within tol (box_width a) (box_width b) \<and> js_within tol (box_height a) (box_height b))"

text \<open>
  A box of four real numbers: no coordinate is NaN or infinite. A box that covers
  something: four real numbers, with a positive width and height.
\<close>

definition finite_box :: "jsnum box \<Rightarrow> bool" where
  "finite_box b = (is_fin (box_x b) \<and> is_fin (box_y b) \<and> is_fin (box_width b) \<and> is_fin (box_height b))"

definition covering_box :: "jsnum box \<Rightarrow> bool" where
  "covering_box b = (finite_box b \<and> js_lt (Fin 0) (box_width b) \<and> js_lt (Fin 0) (box_height b))"

definition fin_box :: "real \<Rightarrow> real \<Rightarrow> real \<Rightarrow> real \<Rightarrow> jsnum box" where
  "fin_box a b c d = \<lparr> box_x = Fin a, box_y = Fin b, box_width = Fin c, box_height = Fin d \<rparr>"

definition fin_size :: "real \<Rightarrow> real \<Rightarrow> jsnum size2" where
  "fin_size w h = \<lparr> size_width = Fin w, size_height = Fin h \<rparr>"



section \<open>Byte buffers and edge maps\<close>

text \<open>
  Pixel buffers and edge maps are \<open>Uint8Array\<close>s, modelled as lists of naturals. A read
  past the end gives \<open>undefined\<close>, here \<open>None\<close>; \<open>a ?? b\<close> takes \<open>b\<close> when \<open>a\<close> is undefined.
\<close>

definition u8_get :: "nat list \<Rightarrow> nat \<Rightarrow> nat option" where
  "u8_get a i = (if i < length a then Some (a ! i) else None)"

definition nullish_or :: "'a option \<Rightarrow> 'a option \<Rightarrow> 'a option" where
  "nullish_or a b = (case a of None \<Rightarrow> b | Some v \<Rightarrow> Some v)"

text \<open>
  The truth value of \<open>a[i]\<close> for an index that may be negative or past the end:
  \<open>undefined\<close> and \<open>0\<close> are false.
\<close>

definition truthy_at :: "nat list \<Rightarrow> int \<Rightarrow> bool" where
  "truthy_at a i = (0 \<le> i \<and> i < int (length a) \<and> a ! nat i \<noteq> 0)"

text \<open>
  \<open>function computeEdgeMap(gray, width, height, threshold = 22)\<close>. The loops write the
  cells with \<open>y < height - 1\<close> and \<open>x < width - 1\<close> once each and leave the last row and
  the last column at 0. A gradient with an undefined operand is NaN, which is not
  \<open>>= threshold\<close>.
\<close>

definition edge_cell :: "nat list \<Rightarrow> nat \<Rightarrow> nat \<Rightarrow> nat \<Rightarrow> nat \<Rightarrow> nat" where
  "edge_cell gray width threshold y x =
     (let idx = y * width + x in
      case (u8_get gray idx, u8_get gray (idx + 1), u8_get gray ((y + 1) * width + x)) of
        (Some g, Some gr, Some gd) \<Rightarrow>
          (let gx = \<bar>int g - int gr\<bar>; gy = \<bar>int g - int gd\<bar>
           in if int threshold \<le> gx + gy then 1 else 0)
      | _ \<Rightarrow> 0)"

definition computeEdgeMap :: "nat list \<Rightarrow> nat \<Rightarrow> nat \<Rightarrow> nat \<Rightarrow> nat list" where
  "computeEdgeMap gray width height threshold =
     map (\<lambda>idx. let y = idx div width; x = idx mod width
                 in if y + 1 < height \<and> x + 1 < width then edge_cell gray width threshold y x else 0)
         [0..<width * height]"

section \<open>Footer band locator\<close>

text \<open>\<open>function isPurplePixel(r, g, b)\<close>; a comparison with an undefined channel is false.\<close>

definition isPurplePixel :: "nat option \<Rightarrow> nat option \<Rightarrow> nat option \<Rightarrow> bool" where
  "isPurplePixel r g b =
     (case (r, g, b) of
        (Some r', Some g', Some b') \<Rightarrow>
          55 < r' \<and> 55 < b' \<and> g' < 120 \<and> g' + 18 < r' \<and> g' + 18 < b'
      | _ \<Rightarrow> False)"

record zone =
  zone_x0 :: int
  zone_y0 :: int
  zone_x1 :: int
  zone_y1 :: int

record band =
  band_y0 :: nat
  band_y1 :: nat
  band_score :: real

text \<open>The pixel test of the row loop of \<open>detectFooterBand\<close>, and the ratio stored for a row.\<close>

definition purple_at :: "nat list \<Rightarrow> nat \<Rightarrow> nat \<Rightarrow> nat \<Rightarrow> nat \<Rightarrow> bool" where
  "purple_at raw width channels y x =
     (let idx = (y * width + x) * channels;
          r = u8_get raw idx;
          g = nullish_or (u8_get raw (idx + 1)) (u8_get raw idx);
          b = nullish_or (u8_get raw (idx + 2)) (u8_get raw idx)
      in isPurplePixel r g b)"

definition rowPurpleRatio :: "nat list \<Rightarrow> nat \<Rightarrow> nat \<Rightarrow> nat \<Rightarrow> real" where
  "rowPurpleRatio raw width channels y =
     real (length (filter (purple_at raw width channels y) [0..<width])) / real width"

text \<open>
  The inner \<open>while (y < height && rowPurpleRatio[y] >= 0.2)\<close>: it returns the row where it
  stops, the sum of the ratios and the number of rows.
\<close>

function extend_band :: "(nat \<Rightarrow> real) \<Rightarrow> nat \<Rightarrow> nat \<Rightarrow> real \<Rightarrow> nat \<Rightarrow> nat \<times> real \<times> nat" where
  "extend_band ratio height y ratioSum bandRows =
     (if y < height \<and> 0.2 \<le> ratio y
      then extend_band ratio height (y + 1) (ratioSum + ratio y) (bandRows + 1)
      else (y, ratioSum, bandRows))"
  by pat_completeness auto
termination
  by (relation "measure (\<lambda>(ratio, height, y, ratioSum, bandRows). height - y)") auto

declare extend_band.simps [simp del]

lemma extend_band_progress:
  "extend_band ratio height y s r = (y', s', r') \<Longrightarrow> y \<le> y' \<and> (y < height \<and> 0.2 \<le> ratio y \<longrightarrow> y < y')"
proof (induction ratio height y s r rule: extend_band.induct)
  case (1 ratio height y ratioSum bandRows)
  show ?case
  proof (cases "y < height \<and> 0.2 \<le> ratio y")
    case True
    then have "extend_band ratio height (y + 1) (ratioSum + ratio y) (bandRows + 1) = (y', s', r')"
      using "1.prems" by (subst (asm) extend_band.simps) simp
    with "1.IH" True have "y + 1 \<le> y'" by blast
    then show ?thesis by simp
  next
    case False
    then show ?thesis using "1.prems" by (subst (asm) extend_band.simps) auto
  qed
qed

text \<open>
  The outer \<open>while (y < height)\<close> of \<open>detectFooterBand\<close>, with \<open>best\<close> as its state. A row
  whose ratio is below 0.28 is skipped; otherwise a band starts, runs while the ratio is
  at least 0.2, and replaces \<open>best\<close> when it is high enough and scores higher.
\<close>

definition consider_band :: "nat \<Rightarrow> nat \<Rightarrow> nat \<Rightarrow> nat \<times> real \<times> nat \<Rightarrow> band option \<Rightarrow> band option" where
  "consider_band height minBandHeight bandStart run best =
     (case run of (y, ratioSum, bandRows) \<Rightarrow>
        (let bandEnd = int y - 1;
             bandHeight = bandEnd - int bandStart + 1;
             avgRatio = (if 0 < bandRows then ratioSum / real bandRows else 0)
         in if int minBandHeight \<le> bandHeight
            then (let score = (real_of_int bandHeight * 0.7) + (avgRatio * real height * 0.3)
                  in if best = None \<or> band_score (the best) < score
                     then Some \<lparr> band_y0 = bandStart, band_y1 = nat bandEnd, band_score = score \<rparr>
                     else best)
            else best))"

function scan_bands :: "(nat \<Rightarrow> real) \<Rightarrow> nat \<Rightarrow> nat \<Rightarrow> nat \<Rightarrow> band option \<Rightarrow> band option" where
  "scan_bands ratio height minBandHeight y best =
     (if y < height
      then (if ratio y < 0.28
            then scan_bands ratio height minBandHeight (y + 1) best
            else scan_bands ratio height minBandHeight
                   (fst (extend_band ratio height y 0 0))
                   (consider_band height minBandHeight y (extend_band ratio height y 0 0) best))
      else best)"
  by pat_completeness auto
termination
proof (relation "measure (\<lambda>(ratio, height, minBandHeight, y, best). height - y)")
  show "wf (measure (\<lambda>(ratio, height, minBandHeight, y, best). height - y))" by simp
next
  fix ratio :: "nat \<Rightarrow> real" and height minBandHeight y :: nat and best :: "band option"
  assume "y < height" "ratio y < 0.28"
  then show "((ratio, height, minBandHeight, y + 1, best), (ratio, height, minBandHeight, y, best))
       \<in> measure (\<lambda>(ratio, height, minBandHeight, y, best). height - y)"
    by simp
next
  fix ratio :: "nat \<Rightarrow> real" and height minBandHeight y :: nat and best :: "band option"
  assume a: "y < height" "\<not> ratio y < 0.28"
  obtain y' s' r' where e: "extend_band ratio height y 0 0 = (y', s', r')"
    by (cases "extend_band ratio height y 0 0") auto
  from extend_band_progress[OF e] a have "y < y'" by auto
  then show "((ratio, height, minBandHeight, fst (extend_band ratio height y 0 0),
         consider_band height minBandHeight y (extend_band ratio height y 0 0) best),
        (ratio, height, minBandHeight, y, best))
       \<in> measure (\<lambda>(ratio, height, minBandHeight, y, best). height - y)"
    using a e by simp
qed

declare scan_bands.simps [simp del]

text \<open>
  \<open>function detectFooterBand(raw, width, height, channels)\<close>. The outer \<open>None\<close> is the one
  input on which the source does not return: with \<open>width = 0\<close> every ratio is \<open>0 / 0\<close>,
  that is NaN, which is neither \<open>< 0.28\<close> nor \<open>>= 0.2\<close>, so the scan never leaves its first
  row. \<open>Some None\<close> is the result \<open>null\<close>.
\<close>

definition detectFooterBand :: "nat list \<Rightarrow> nat \<Rightarrow> nat \<Rightarrow> nat \<Rightarrow> zone option option" where
  "detectFooterBand raw width height channels =
     (let startY = (height * 45) div 100;
          minBandHeight = max 24 ((height * 5) div 100)
      in if width = 0 \<and> startY < height then None
         else Some (case scan_bands (rowPurpleRatio raw width channels) height minBandHeight startY None of
                      None \<Rightarrow> None
                    | Some best \<Rightarrow>
                        Some \<lparr> zone_x0 = int ((width * 45) div 100), zone_y0 = int (band_y0 best),
                               zone_x1 = int width, zone_y1 = int (band_y1 best) + 1 \<rparr>))"

text \<open>
  The bitmaps of the locator's self-test: the bottom \<open>h\<close> rows are solid footer colour
  (every pixel passes \<open>isPurplePixel\<close>), and the scanned rows above them stay below the
  ratio 0.2 at which a band continues.
\<close>

definition solid_row :: "nat list \<Rightarrow> nat \<Rightarrow> nat \<Rightarrow> nat \<Rightarrow> bool" where
  "solid_row raw width channels y = list_all (purple_at raw width channels y) [0..<width]"

definition solid_band_at_bottom :: "nat list \<Rightarrow> nat \<Rightarrow> nat \<Rightarrow> nat \<Rightarrow> nat \<Rightarrow> bool" where
  "solid_band_at_bottom raw width height channels h =
     (h \<le> height \<and> list_all (solid_row raw width channels) [height - h..<height])"

definition quiet_rows :: "nat list \<Rightarrow> nat \<Rightarrow> nat \<Rightarrow> nat \<Rightarrow> nat \<Rightarrow> bool" where
  "quiet_rows raw width channels a b =
     list_all (\<lambda>y. rowPurpleRatio raw width channels y < 0.2) [a..<b]"

text \<open>
  A qualifying band, from the specification's words: a contiguous group of rows \<open>a..b\<close>
  at or below the start row whose ratios are all at least 0.2, whose first row meets
  the entry ratio 0.28, and which is at least \<open>minBandHeight\<close> rows high.
\<close>

definition qualifying_group_spec :: "(nat \<Rightarrow> real) \<Rightarrow> nat \<Rightarrow> nat \<Rightarrow> nat \<Rightarrow> bool" where
  "qualifying_group_spec ratio startY height minBandHeight =
     list_ex (\<lambda>a. list_ex (\<lambda>b. 0.28 \<le> ratio a \<and> list_all (\<lambda>y. 0.2 \<le> ratio y) [a..<b + 1] \<and>
                                 minBandHeight \<le> b + 1 - a)
                          [a..<height])
             [startY..<height]"

section \<open>Deterministic matcher\<close>

record template =
  refName :: string
  t_width :: nat
  t_height :: nat
  t_edges :: "nat list"

record match_result =
  score :: jsnum
  bboxPx :: "jsnum box option"
  matchedReference :: "json option"

text \<open>The three counters \<open>tp\<close>, \<open>fp\<close>, \<open>fn\<close> of \<open>scoreTemplateAt\<close> and the body of its inner loop.\<close>

definition count_step :: "bool \<Rightarrow> bool \<Rightarrow> nat \<times> nat \<times> nat \<Rightarrow> nat \<times> nat \<times> nat" where
  "count_step p t c =
     (case c of (tp, fp, fn) \<Rightarrow>
        if p \<and> t then (tp + 1, fp, fn)
        else if p \<and> \<not> t then (tp, fp + 1, fn)
        else if \<not> p \<and> t then (tp, fp, fn + 1)
        else (tp, fp, fn))"

definition overlap_counts :: "nat list \<Rightarrow> int \<Rightarrow> int \<Rightarrow> int \<Rightarrow> template \<Rightarrow> nat \<times> nat \<times> nat" where
  "overlap_counts pageEdges pageWidth x y template =
     fold (\<lambda>ty c.
             fold (\<lambda>tx c.
                     count_step
                       (truthy_at pageEdges ((y + int ty) * pageWidth + x + int tx))
                       (truthy_at (t_edges template) (int (ty * t_width template + tx))) c)
                  [0..<t_width template] c)
          [0..<t_height template] (0, 0, 0)"

text \<open>\<open>function scoreTemplateAt(pageEdges, pageWidth, x, y, template)\<close>\<close>

definition scoreTemplateAt :: "nat list \<Rightarrow> int \<Rightarrow> int \<Rightarrow> int \<Rightarrow> template \<Rightarrow> jsnum" where
  "scoreTemplateAt pageEdges pageWidth x y template =
     (case overlap_counts pageEdges pageWidth x y template of (tp, fp, fn) \<Rightarrow>
        (let denom = real tp + (0.65 * real fp) + (1.25 * real fn)
         in if 0 < denom then Fin (real tp / denom) else Fin 0))"

text \<open>The values of a loop \<open>for (let v = a; v <= b; v += 3)\<close>.\<close>

function stride3 :: "int \<Rightarrow> int \<Rightarrow> int list" where
  "stride3 a b = (if a \<le> b then a # stride3 (a + 3) b else [])"
  by pat_completeness auto
termination
  by (relation "measure (\<lambda>(a, b). nat (b + 1 - a))") auto

declare stride3.simps [simp del]

definition int_box :: "int \<Rightarrow> int \<Rightarrow> nat \<Rightarrow> nat \<Rightarrow> jsnum box" where
  "int_box x y w h =
     \<lparr> box_x = Fin (of_int x), box_y = Fin (of_int y), box_width = Fin (of_nat w),
       box_height = Fin (of_nat h) \<rparr>"

text \<open>The body of the innermost loop of \<open>detectLogoByTemplateMatch\<close>.\<close>

definition try_position :: "nat list \<Rightarrow> int \<Rightarrow> template \<Rightarrow> int \<Rightarrow> int \<Rightarrow> match_result \<Rightarrow> match_result" where
  "try_position pageEdges pageWidth template y x best =
     (let s = scoreTemplateAt pageEdges pageWidth x y template
      in if js_gt s (score best)
         then \<lparr> score = s,
                bboxPx = Some (int_box x y (t_width template) (t_height template)),
                matchedReference = Some (JStr (refName template)) \<rparr>
         else best)"

definition scan_zone :: "nat list \<Rightarrow> int \<Rightarrow> template \<Rightarrow> zone \<Rightarrow> match_result \<Rightarrow> match_result" where
  "scan_zone pageEdges pageWidth template z best =
     (let maxX = zone_x1 z - int (t_width template);
          maxY = zone_y1 z - int (t_height template)
      in if maxX \<le> zone_x0 z \<or> maxY \<le> zone_y0 z then best
         else fold (\<lambda>y b. fold (\<lambda>x b. try_position pageEdges pageWidth template y x b)
                                (stride3 (zone_x0 z) maxX) b)
                   (stride3 (zone_y0 z) maxY) best)"

text \<open>
  The zone the matcher searches when it is given none: the right part of the lower 40
  percent of the page. \<open>Math.floor(pageWidth * 0.45)\<close> and \<open>Math.floor(pageHeight * 0.60)\<close>
  are taken as exact integer quotients.
\<close>

definition default_zone :: "nat \<Rightarrow> nat \<Rightarrow> zone" where
  "default_zone pageWidth pageHeight =
     \<lparr> zone_x0 = int ((pageWidth * 45) div 100), zone_y0 = int ((pageHeight * 60) div 100),
       zone_x1 = int pageWidth, zone_y1 = int pageHeight \<rparr>"

text \<open>
  \<open>function detectLogoByTemplateMatch(pageEdges, pageWidth, pageHeight, templates, searchZone)\<close>
\<close>

definition detectLogoByTemplateMatch ::
  "nat list \<Rightarrow> nat \<Rightarrow> nat \<Rightarrow> template list \<Rightarrow> zone option \<Rightarrow> match_result" where
  "detectLogoByTemplateMatch pageEdges pageWidth pageHeight templates searchZone =
     (let zones = (case searchZone of
                     Some z \<Rightarrow> [z]
                   | None \<Rightarrow> [default_zone pageWidth pageHeight])
      in fold (\<lambda>template b. fold (\<lambda>z b. scan_zone pageEdges (int pageWidth) template z b) zones b)
              templates
              \<lparr> score = Fin 0, bboxPx = None, matchedReference = None \<rparr>)"

text \<open>
  The page of the matcher's self-test: the edge map of a \<open>pageWidth\<close> by \<open>pageHeight\<close>
  page that holds the template's own edge values in the window at \<open>(px, py)\<close> and 0
  everywhere else.
\<close>

definition embed_template :: "nat \<Rightarrow> nat \<Rightarrow> template \<Rightarrow> nat \<Rightarrow> nat \<Rightarrow> nat list" where
  "embed_template pageWidth pageHeight template px py =
     map (\<lambda>i. let u = i mod pageWidth; v = i div pageWidth
               in if px \<le> u \<and> u < px + t_width template \<and> py \<le> v \<and> v < py + t_height template
                  then t_edges template ! ((v - py) * t_width template + (u - px))
                  else 0)
         [0..<pageWidth * pageHeight]"

text \<open>
  A template as the template library keeps it: its edge map has one cell per pixel and
  at least one edge.
\<close>

definition template_ok :: "template \<Rightarrow> bool" where
  "template_ok template =
     (length (t_edges template) = t_width template * t_height template \<and>
      list_ex (\<lambda>v. v \<noteq> 0) (t_edges template))"

text \<open>
  The overlap counts of a window said without the loops: the numbers of window cells that
  are an edge of both, of the page only, and of the template only.
\<close>

definition window_cells :: "template \<Rightarrow> (nat \<times> nat) list" where
  "window_cells template = List.product [0..<t_height template] [0..<t_width template]"

definition page_edge :: "nat list \<Rightarrow> int \<Rightarrow> int \<Rightarrow> int \<Rightarrow> nat \<times> nat \<Rightarrow> bool" where
  "page_edge pageEdges pageWidth x y c =
     truthy_at pageEdges ((y + int (fst c)) * pageWidth + x + int (snd c))"

definition template_edge :: "template \<Rightarrow> nat \<times> nat \<Rightarrow> bool" where
  "template_edge template c = truthy_at (t_edges template) (int (fst c * t_width template + snd c))"

definition tp_count :: "nat list \<Rightarrow> int \<Rightarrow> int \<Rightarrow> int \<Rightarrow> template \<Rightarrow> nat" where
  "tp_count pageEdges pageWidth x y template =
     length (filter (\<lambda>c. page_edge pageEdges pageWidth x y c \<and> template_edge template c)
               (window_cells template))"

definition fp_count :: "nat list \<Rightarrow> int \<Rightarrow> int \<Rightarrow> int \<Rightarrow> template \<Rightarrow> nat" where
  "fp_count pageEdges pageWidth x y template =
     length (filter (\<lambda>c. page_edge pageEdges pageWidth x y c \<and> \<not> template_edge template c)
               (window_cells template))"

definition fn_count :: "nat list \<Rightarrow> int \<Rightarrow> int \<Rightarrow> int \<Rightarrow> template \<Rightarrow> nat" where
  "fn_count pageEdges pageWidth x y template =
     length (filter (\<lambda>c. \<not> page_edge pageEdges pageWidth x y c \<and> template_edge template c)
               (window_cells template))"


section \<open>Vision probe adapter\<close>

subsection \<open>The built-ins the adapter calls\<close>

text \<open>
  \<open>JSON.parse\<close> and the conversion of a string or an array to a number are built-ins of
  the platform, not code of the repository: the model takes them as parameters.
  \<open>JSON_parse\<close> returns \<open>None\<close> where \<open>JSON.parse\<close> throws.
\<close>

record js_env =
  JSON_parse :: "string \<Rightarrow> json option"
  StringToNumber :: "string \<Rightarrow> jsnum"
  ArrayToNumber :: "json list \<Rightarrow> jsnum"

datatype error =
    NoLogoReferences
  | NoUsableTemplates
  | OpenAIRequestFailed nat string
  | TypeError
  | LibraryFailure string
  | NeverReturns

text \<open>\<open>v.key\<close> on a value that is not null: an object is looked up, anything else has no such key.\<close>

fun get_prop :: "json \<Rightarrow> string \<Rightarrow> json option" where
  "get_prop (JObj kvs) k = map_of kvs k"
| "get_prop _ k = None"

text \<open>The truth value of a JSON value, and of a property that may be undefined.\<close>

fun truthy :: "json \<Rightarrow> bool" where
  "truthy JNull = False"
| "truthy (JBool b) = b"
| "truthy (JNum n) = (n \<noteq> NaN \<and> n \<noteq> Fin 0)"
| "truthy (JStr s) = (s \<noteq> [])"
| "truthy (JArr xs) = True"
| "truthy (JObj kvs) = True"

definition truthy_opt :: "json option \<Rightarrow> bool" where
  "truthy_opt v = (case v of None \<Rightarrow> False | Some j \<Rightarrow> truthy j)"

text \<open>
  \<open>Number(v)\<close> for a JSON value, and \<open>Number(v ?? 0)\<close> for a property. The conversion of an
  object goes through its \<open>valueOf\<close> and \<open>toString\<close>. A parsed object inherits both, and
  the inherited \<open>toString\<close> gives a string that is not a number. A key \<open>toString\<close> of its
  own hides the inherited one with a value that cannot be called, and then the
  conversion throws a \<open>TypeError\<close>; so does the conversion of an array that holds such an
  object, which is converted on the way. \<open>ToNumber\<close> is the value where nothing is thrown.
\<close>

fun Number_throws :: "json \<Rightarrow> bool" where
  "Number_throws (JObj kvs) = (map_of kvs ''toString'' \<noteq> None)"
| "Number_throws (JArr xs) = list_ex Number_throws xs"
| "Number_throws _ = False"

definition number_or_zero_throws :: "json option \<Rightarrow> bool" where
  "number_or_zero_throws v = (case v of None \<Rightarrow> False | Some j \<Rightarrow> Number_throws j)"

fun ToNumber :: "js_env \<Rightarrow> json \<Rightarrow> jsnum" where
  "ToNumber env JNull = Fin 0"
| "ToNumber env (JBool b) = (if b then Fin 1 else Fin 0)"
| "ToNumber env (JNum n) = n"
| "ToNumber env (JStr s) = StringToNumber env s"
| "ToNumber env (JArr xs) = ArrayToNumber env xs"
| "ToNumber env (JObj kvs) = NaN"

definition number_or_zero :: "js_env \<Rightarrow> json option \<Rightarrow> jsnum" where
  "number_or_zero env v =
     (case v of None \<Rightarrow> Fin 0 | Some JNull \<Rightarrow> Fin 0 | Some j \<Rightarrow> ToNumber env j)"

subsection \<open>Strings\<close>

text \<open>
  A string is a list of 8-bit characters. \<open>trim\<close> removes white space at both ends; the
  white space of the first 256 code points is modelled.
\<close>

definition is_space :: "char \<Rightarrow> bool" where
  "is_space c = (c \<in> set [CHR 0x09, CHR 0x0A, CHR 0x0B, CHR 0x0C, CHR 0x0D, CHR 0x20, CHR 0xA0])"

definition trim :: "string \<Rightarrow> string" where
  "trim s = rev (dropWhile is_space (rev (dropWhile is_space s)))"

definition lower_char :: "char \<Rightarrow> char" where
  "lower_char c =
     (case map_of (zip ''ABCDEFGHIJKLMNOPQRSTUVWXYZ'' ''abcdefghijklmnopqrstuvwxyz'') c of
        Some l \<Rightarrow> l
      | None \<Rightarrow> c)"

definition matches_ci :: "string \<Rightarrow> string \<Rightarrow> bool" where
  "matches_ci pat s =
     (length pat \<le> length s \<and> map lower_char (take (length pat) s) = map lower_char pat)"

text \<open>
  \<open>s.replace(/pat/gi, "")\<close> for a pattern of plain characters: every match is removed,
  from left to right, and the search goes on after the match.
\<close>

function remove_all_ci :: "string \<Rightarrow> string \<Rightarrow> string" where
  "remove_all_ci pat s =
     (if s = [] then []
      else if pat \<noteq> [] \<and> matches_ci pat s then remove_all_ci pat (drop (length pat) s)
      else hd s # remove_all_ci pat (tl s))"
  by pat_completeness auto
termination
  by (relation "measure (\<lambda>(pat, s). length s)") auto

declare remove_all_ci.simps [simp del]

text \<open>\<open>s.indexOf(c)\<close> and \<open>s.lastIndexOf(c)\<close> for one character (\<open>-1\<close> when absent), and \<open>s.slice(a, b)\<close>.\<close>

definition indexOf :: "string \<Rightarrow> char \<Rightarrow> int" where
  "indexOf s c = (if c \<in> set s then int (length (takeWhile (\<lambda>d. d \<noteq> c) s)) else - 1)"

definition lastIndexOf :: "string \<Rightarrow> char \<Rightarrow> int" where
  "lastIndexOf s c =
     (if c \<in> set s then int (length s) - 1 - int (length (takeWhile (\<lambda>d. d \<noteq> c) (rev s))) else - 1)"

definition slice :: "string \<Rightarrow> nat \<Rightarrow> nat \<Rightarrow> string" where
  "slice s a b = take (b - a) (drop a s)"

subsection \<open>Parsing the reply\<close>

text \<open>\<open>function extractJsonObject(text)\<close>\<close>

definition extractJsonObject :: "js_env \<Rightarrow> string \<Rightarrow> json option" where
  "extractJsonObject env text =
     (if text = [] then None
      else (let start = indexOf text (CHR 0x7B); last = lastIndexOf text (CHR 0x7D)
            in if start = - 1 \<or> last = - 1 \<or> last \<le> start then None
               else JSON_parse env (slice text (nat start) (nat last + 1))))"

text \<open>\<open>function cleanModelJsonText(text)\<close>\<close>

definition cleanModelJsonText :: "string \<Rightarrow> string" where
  "cleanModelJsonText text =
     (if text = [] then []
      else trim (remove_all_ci [CHR 0x60, CHR 0x60, CHR 0x60]
                   (remove_all_ci ([CHR 0x60, CHR 0x60, CHR 0x60] @ ''json'') text)))"

text \<open>\<open>x && typeof x === "object"\<close>: an object or an array.\<close>

fun is_object :: "json \<Rightarrow> bool" where
  "is_object (JObj kvs) = True"
| "is_object (JArr xs) = True"
| "is_object _ = False"

text \<open>
  The state of the salvage loop of \<open>parseVisionDetections\<close>. The source compares the
  single character \<open>ch\<close> with a string literal of two backslashes, which never holds, so
  \<open>escaped\<close> is never set.
\<close>

record salvage =
  sv_objects :: "json list"
  sv_depth :: int
  sv_start :: int
  sv_inString :: bool
  sv_escaped :: bool

definition salvage_step :: "js_env \<Rightarrow> string \<Rightarrow> nat \<Rightarrow> salvage \<Rightarrow> salvage" where
  "salvage_step env cleaned i st =
     (let ch = cleaned ! i in
      if sv_inString st then
        (if sv_escaped st then st\<lparr> sv_escaped := False \<rparr>
         else if [ch] = [CHR 0x5C, CHR 0x5C] then st\<lparr> sv_escaped := True \<rparr>
         else if ch = CHR 0x22 then st\<lparr> sv_inString := False \<rparr>
         else st)
      else if ch = CHR 0x22 then st\<lparr> sv_inString := True \<rparr>
      else if ch = CHR 0x7B then
        st\<lparr> sv_start := (if sv_depth st = 0 then int i else sv_start st),
            sv_depth := sv_depth st + 1 \<rparr>
      else if ch = CHR 0x7D then
        (let d = sv_depth st - 1 in
         if d = 0 \<and> 0 \<le> sv_start st then
           st\<lparr> sv_depth := d, sv_start := - 1,
               sv_objects :=
                 (case JSON_parse env (slice cleaned (nat (sv_start st)) (i + 1)) of
                    Some obj \<Rightarrow> if is_object obj then sv_objects st @ [obj] else sv_objects st
                  | None \<Rightarrow> sv_objects st) \<rparr>
         else st\<lparr> sv_depth := d \<rparr>)
      else st)"

definition salvage_objects :: "js_env \<Rightarrow> string \<Rightarrow> json list" where
  "salvage_objects env cleaned =
     sv_objects (fold (salvage_step env cleaned) [0..<length cleaned]
        \<lparr> sv_objects = [], sv_depth = 0, sv_start = - 1, sv_inString = False, sv_escaped = False \<rparr>)"

text \<open>\<open>function parseVisionDetections(text)\<close>\<close>

definition parseVisionDetections :: "js_env \<Rightarrow> string \<Rightarrow> json list" where
  "parseVisionDetections env text =
     (let cleaned = cleanModelJsonText text in
      if cleaned = [] then []
      else (case JSON_parse env cleaned of
              Some (JArr xs) \<Rightarrow> xs
            | Some (JObj kvs) \<Rightarrow> [JObj kvs]
            | Some _ \<Rightarrow> salvage_objects env cleaned
            | None \<Rightarrow>
                (case extractJsonObject env cleaned of
                   Some one \<Rightarrow> if is_object one then [one] else salvage_objects env cleaned
                 | None \<Rightarrow> salvage_objects env cleaned)))"

subsection \<open>Candidates\<close>

record candidate =
  found :: bool
  confidence :: jsnum
  bbox :: "jsnum box option"
  ai_matchedReference :: "json option"

record probe = candidate +
  rawText :: string

text \<open>
  The callback of \<open>.map\<close> in \<open>detectLogoWithVision\<close>: one parsed item to one candidate, and
  whether one of its conversions throws.
\<close>

definition candidate_throws :: "json \<Rightarrow> bool" where
  "candidate_throws item =
     (number_or_zero_throws (get_prop item ''confidence'') \<or>
      (case get_prop item ''bbox'' of
         None \<Rightarrow> False
       | Some b \<Rightarrow>
           truthy b \<and>
           (number_or_zero_throws (get_prop b ''x'') \<or> number_or_zero_throws (get_prop b ''y'') \<or>
            number_or_zero_throws (get_prop b ''width'') \<or>
            number_or_zero_throws (get_prop b ''height''))))"

definition to_candidate :: "js_env \<Rightarrow> json \<Rightarrow> candidate" where
  "to_candidate env item =
     \<lparr> found = truthy_opt (get_prop item ''found''),
       confidence = clamp (number_or_zero env (get_prop item ''confidence'')) (Fin 0) (Fin 1),
       bbox = (case get_prop item ''bbox'' of
                 None \<Rightarrow> None
               | Some b \<Rightarrow>
                   if truthy b
                   then Some \<lparr> box_x = clamp (number_or_zero env (get_prop b ''x'')) (Fin 0) (Fin 1),
                               box_y = clamp (number_or_zero env (get_prop b ''y'')) (Fin 0) (Fin 1),
                               box_width = clamp (number_or_zero env (get_prop b ''width'')) (Fin 0) (Fin 1),
                               box_height = clamp (number_or_zero env (get_prop b ''height'')) (Fin 0) (Fin 1) \<rparr>
                   else None),
       ai_matchedReference = (case get_prop item ''matchedReference'' of
                                None \<Rightarrow> None
                              | Some m \<Rightarrow> if truthy m then Some m else None) \<rparr>"

text \<open>The callback of \<open>.filter\<close>: \<open>c.found && c.bbox && c.bbox.width > 0 && c.bbox.height > 0\<close>.\<close>

definition survives :: "'a candidate_scheme \<Rightarrow> bool" where
  "survives c =
     (found c \<and> (case bbox c of
                    None \<Rightarrow> False
                  | Some b \<Rightarrow> js_gt (box_width b) (Fin 0) \<and> js_gt (box_height b) (Fin 0)))"

text \<open>
  The sort key \<open>confidence + (bbox.x * 0.1)\<close> and the comparator \<open>(a, b) => qb - qa\<close>. Every
  candidate that reaches the sort has a box.
\<close>

definition quality :: "'a candidate_scheme \<Rightarrow> jsnum" where
  "quality c = js_add (confidence c) (js_mul (box_x (the (bbox c))) (Fin 0.1))"

text \<open>The key as a real number, where it is one.\<close>

definition fin_quality :: "'a candidate_scheme \<Rightarrow> real" where
  "fin_quality c = (case quality c of Fin r \<Rightarrow> r | _ \<Rightarrow> 0)"

definition by_quality :: "candidate \<Rightarrow> candidate \<Rightarrow> jsnum" where
  "by_quality a b = js_sub (quality b) (quality a)"

text \<open>
  \<open>Array.prototype.sort\<close> with a comparator, as a stable insertion sort: \<open>x\<close> goes before
  the first element it compares below (a negative result) and after everything else,
  equal or incomparable (a result of 0 or NaN, which the standard reads as 0). This is
  the order the language standard fixes whenever the comparator is consistent, as it is
  on every list of numeric keys and on every list of at most two elements. With three
  or more elements and a NaN key among them the comparator is not consistent; the
  standard then leaves the order to the engine, and this is one of the orders it allows.
\<close>

fun insert_by :: "('a \<Rightarrow> 'a \<Rightarrow> jsnum) \<Rightarrow> 'a \<Rightarrow> 'a list \<Rightarrow> 'a list" where
  "insert_by cmp x [] = [x]"
| "insert_by cmp x (y # ys) =
     (if js_lt (cmp x y) (Fin 0) then x # y # ys else y # insert_by cmp x ys)"

definition Array_sort :: "('a \<Rightarrow> 'a \<Rightarrow> jsnum) \<Rightarrow> 'a list \<Rightarrow> 'a list" where
  "Array_sort cmp xs = foldl (\<lambda>acc x. insert_by cmp x acc) [] xs"

text \<open>
  The part of \<open>detectLogoWithVision\<close> after \<open>responseToText\<close>: from the reply text to the
  result. A conversion that throws inside \<open>.map\<close> ends the function with that error.
  \<open>candidates[0]\<close> of an empty array would be undefined and reading its confidence a
  \<open>TypeError\<close>; the length check before it excludes that.
\<close>

definition surviving_candidates :: "js_env \<Rightarrow> string \<Rightarrow> candidate list" where
  "surviving_candidates env text = filter survives (map (to_candidate env) (parseVisionDetections env text))"

definition probe_of_text :: "js_env \<Rightarrow> string \<Rightarrow> error + probe" where
  "probe_of_text env text =
     (if list_ex candidate_throws (parseVisionDetections env text) then Inl TypeError
      else (let candidates = surviving_candidates env text in
            if length candidates = 0
            then Inr \<lparr> found = False, confidence = Fin 0, bbox = None, ai_matchedReference = None,
                       rawText = text \<rparr>
            else (case Array_sort by_quality candidates of
                    [] \<Rightarrow> Inl TypeError
                  | best # rest \<Rightarrow>
                      Inr \<lparr> found = True, confidence = confidence best, bbox = bbox best,
                            ai_matchedReference = ai_matchedReference best, rawText = text \<rparr>)))"

subsection \<open>The reply of the service\<close>

text \<open>\<open>typeof v === "string" && v.trim()\<close> for a property: the string when it holds.\<close>

definition nonblank_string :: "json option \<Rightarrow> string option" where
  "nonblank_string v = (case v of Some (JStr s) \<Rightarrow> if trim s \<noteq> [] then Some s else None | _ \<Rightarrow> None)"

definition array_or_empty :: "json option \<Rightarrow> json list" where
  "array_or_empty v = (case v of Some (JArr xs) \<Rightarrow> xs | _ \<Rightarrow> [])"

definition part_text :: "json \<Rightarrow> string list" where
  "part_text part =
     (case nonblank_string (get_prop part ''text'') of
        Some s \<Rightarrow> [s]
      | None \<Rightarrow> (case nonblank_string (get_prop part ''output_text'') of Some s \<Rightarrow> [s] | None \<Rightarrow> []))"

definition join_lines :: "string list \<Rightarrow> string" where
  "join_lines chunks = (case chunks of [] \<Rightarrow> [] | c # cs \<Rightarrow> c @ concat (map (\<lambda>d. CHR 0x0A # d) cs))"

text \<open>
  \<open>function responseToText(json)\<close>. Reading \<open>json.output_text\<close> of \<open>null\<close> is a \<open>TypeError\<close>.
\<close>

definition responseToText :: "json \<Rightarrow> error + string" where
  "responseToText j =
     (if j = JNull then Inl TypeError
      else (case nonblank_string (get_prop j ''output_text'') of
              Some s \<Rightarrow> Inr s
            | None \<Rightarrow>
                Inr (join_lines
                       (concat (map (\<lambda>item. concat (map part_text (array_or_empty (get_prop item ''content''))))
                                    (array_or_empty (get_prop j ''output'')))))))"

text \<open>
  The HTTP response of the service: \<open>response.ok\<close>, the status, and the body. \<open>response.json()\<close>
  is \<open>JSON.parse\<close> of the body.
\<close>

record http_response =
  resp_ok :: bool
  resp_status :: nat
  resp_body :: string

text \<open>
  \<open>async function detectLogoWithVision(pagePng, logoRefs)\<close>, from the response on. The
  request is built from the page and the references and does not enter the result.
\<close>

definition detectLogoWithVision :: "js_env \<Rightarrow> http_response \<Rightarrow> error + probe" where
  "detectLogoWithVision env response =
     (if \<not> resp_ok response
      then Inl (OpenAIRequestFailed (resp_status response) (take 200 (resp_body response)))
      else (case JSON_parse env (resp_body response) of
              None \<Rightarrow> Inl (LibraryFailure ''response.json'')
            | Some j \<Rightarrow>
                (case responseToText j of
                   Inl e \<Rightarrow> Inl e
                 | Inr text \<Rightarrow> probe_of_text env text)))"

text \<open>\<open>function isFooterLogoBboxValid(bbox)\<close> and \<open>function isFooterStripCandidate(bbox)\<close>\<close>

definition isFooterLogoBboxValid :: "jsnum box option \<Rightarrow> bool" where
  "isFooterLogoBboxValid b =
     (case b of
        None \<Rightarrow> False
      | Some bb \<Rightarrow>
          (let y = box_y bb; w = box_width bb; h = box_height bb
           in if js_lt y (Fin 0.72) then False
              else if js_lt w (Fin 0.06) \<or> js_gt w (Fin 0.35) then False
              else if js_lt h (Fin 0.02) \<or> js_gt h (Fin 0.15) then False
              else True))"

definition isFooterStripCandidate :: "jsnum box option \<Rightarrow> bool" where
  "isFooterStripCandidate b =
     (case b of
        None \<Rightarrow> False
      | Some bb \<Rightarrow>
          js_ge (box_y bb) (Fin 0.72) \<and> js_ge (box_width bb) (Fin 0.55) \<and>
          js_ge (box_height bb) (Fin 0.06) \<and> js_le (box_height bb) (Fin 0.2))"


section \<open>Template library\<close>

text \<open>
  The reference directory and the image library are the environment of
  \<open>loadLogoTemplates\<close>: the names \<open>fs.readdir\<close> returns, the width and height of a reference
  after \<open>rotate().trim().grayscale()\<close> (0 where the metadata has none), and the raw
  variant \<open>sharp\<close> produces for a reference and a target width. Each of these calls may
  throw. A reference is identified by its file name, which is also its \<open>refName\<close>.
\<close>

record raw_image =
  img_width :: nat
  img_height :: nat
  img_data :: "nat list"

record refs_dir =
  dir_names :: "error + string list"
  trimmed_meta :: "string \<Rightarrow> error + nat \<times> nat"
  resized_variant :: "string \<Rightarrow> nat \<Rightarrow> error + raw_image"
  resized_png :: "string \<Rightarrow> error + string"

text \<open>The test \<open>/\.(png|jpg|jpeg)$/i\<close> on a file name.\<close>

definition ends_with_ci :: "string \<Rightarrow> string \<Rightarrow> bool" where
  "ends_with_ci ext name =
     (length ext \<le> length name \<and>
      map lower_char (drop (length name - length ext) name) = map lower_char ext)"

definition is_image_name :: "string \<Rightarrow> bool" where
  "is_image_name name =
     (ends_with_ci ''.png'' name \<or> ends_with_ci ''.jpg'' name \<or> ends_with_ci ''.jpeg'' name)"

text \<open>
  The two \<open>continue\<close> tests on a variant: its size, and the number of edge pixels of its
  edge map.
\<close>

definition variant_edges :: "raw_image \<Rightarrow> nat list" where
  "variant_edges v = computeEdgeMap (img_data v) (img_width v) (img_height v) 22"

definition variant_discarded :: "raw_image \<Rightarrow> bool" where
  "variant_discarded v =
     (img_width v = 0 \<or> img_height v = 0 \<or> img_width v < 40 \<or> img_height v < 12 \<or>
      sum_list (variant_edges v) < 40)"

definition template_of_variant :: "string \<Rightarrow> raw_image \<Rightarrow> template" where
  "template_of_variant file v =
     \<lparr> refName = file, t_width = img_width v, t_height = img_height v, t_edges = variant_edges v \<rparr>"

text \<open>The loop over the target widths of one reference, and the loop over the references.\<close>

fun variants_of :: "refs_dir \<Rightarrow> string \<Rightarrow> nat list \<Rightarrow> error + template list" where
  "variants_of dir file [] = Inr []"
| "variants_of dir file (targetWidth # widths) =
     (case resized_variant dir file targetWidth of
        Inl e \<Rightarrow> Inl e
      | Inr v \<Rightarrow>
          (case variants_of dir file widths of
             Inl e \<Rightarrow> Inl e
           | Inr ts \<Rightarrow> Inr ((if variant_discarded v then [] else [template_of_variant file v]) @ ts)))"

definition target_widths :: "nat list" where
  "target_widths = [90, 120, 150, 190, 230]"

fun templates_of :: "refs_dir \<Rightarrow> string list \<Rightarrow> error + template list" where
  "templates_of dir [] = Inr []"
| "templates_of dir (file # files) =
     (case trimmed_meta dir file of
        Inl e \<Rightarrow> Inl e
      | Inr (w, h) \<Rightarrow>
          if w = 0 \<or> h = 0 then templates_of dir files
          else (case variants_of dir file target_widths of
                  Inl e \<Rightarrow> Inl e
                | Inr ts \<Rightarrow>
                    (case templates_of dir files of
                       Inl e \<Rightarrow> Inl e
                     | Inr rest \<Rightarrow> Inr (ts @ rest))))"

text \<open>\<open>async function loadLogoTemplates()\<close>\<close>

definition loadLogoTemplates :: "refs_dir \<Rightarrow> error + template list" where
  "loadLogoTemplates dir =
     (case dir_names dir of
        Inl e \<Rightarrow> Inl e
      | Inr names \<Rightarrow>
          (let files = filter is_image_name names in
           if length files = 0 then Inl NoLogoReferences
           else (case templates_of dir files of
                   Inl e \<Rightarrow> Inl e
                 | Inr templates \<Rightarrow>
                     if length templates = 0 then Inl NoUsableTemplates else Inr templates)))"

text \<open>
  Every variant the library produces for the images of the directory is discarded: for
  each image whose metadata can be read and has a width and a height, each of the five
  variants that is produced fails one of the two tests.
\<close>

definition variants_discarded :: "refs_dir \<Rightarrow> string \<Rightarrow> nat list \<Rightarrow> bool" where
  "variants_discarded dir file widths =
     list_all (\<lambda>targetWidth. case resized_variant dir file targetWidth of
                                Inl e \<Rightarrow> True
                              | Inr v \<Rightarrow> variant_discarded v) widths"

definition all_variants_discarded :: "refs_dir \<Rightarrow> string list \<Rightarrow> bool" where
  "all_variants_discarded dir names =
     list_all (\<lambda>file. case trimmed_meta dir file of
                        Inl e \<Rightarrow> True
                      | Inr (w, h) \<Rightarrow> w = 0 \<or> h = 0 \<or> variants_discarded dir file target_widths)
              (filter is_image_name names)"

text \<open>\<open>async function loadLogoReferenceImages()\<close>: the names and the encoded images.\<close>

fun resize_all :: "refs_dir \<Rightarrow> string list \<Rightarrow> error + (string \<times> string) list" where
  "resize_all dir [] = Inr []"
| "resize_all dir (file # files) =
     (case resized_png dir file of
        Inl e \<Rightarrow> Inl e
      | Inr b \<Rightarrow> (case resize_all dir files of Inl e \<Rightarrow> Inl e | Inr rest \<Rightarrow> Inr ((file, b) # rest)))"

definition loadLogoReferenceImages :: "refs_dir \<Rightarrow> error + (string \<times> string) list" where
  "loadLogoReferenceImages dir =
     (case dir_names dir of
        Inl e \<Rightarrow> Inl e
      | Inr names \<Rightarrow>
          (let files = filter is_image_name names in
           if length files = 0 then Inl NoLogoReferences else resize_all dir files))"

section \<open>Decision and audit engine\<close>

subsection \<open>Configuration, environment and results\<close>

record format_profile =
  footerRatio :: jsnum
  bannerFit :: string
  fillBackground :: bool
  bottomOffsetPx :: jsnum

text \<open>
  The fields of \<open>config\<close> that \<open>processPdf\<close> reads. Each number is
  \<open>Number(process.env... || default)\<close>, neither rounded nor checked: a page limit, like a
  threshold, can be any number, a fraction or NaN included. \<open>formatProfiles\<close> is the
  lookup of a format key, \<open>style_a\<close> the profile the source falls back to.
\<close>

record config =
  detectorMode :: string
  forceFooterBanner :: bool
  debugDrawBoxes :: bool
  maxPagesPerJob :: jsnum
  aiMaxPagesPerJob :: jsnum
  aiPageLimit :: jsnum
  matchAutoThreshold :: jsnum
  matchReviewThreshold :: jsnum
  formatProfiles :: "string \<Rightarrow> format_profile option"
  style_a :: format_profile

record settings =
  set_autoThreshold :: "jsnum option"
  set_reviewThreshold :: "jsnum option"
  set_formatKey :: "string option"
  set_mode :: "string option"

record color =
  col_r :: jsnum
  col_g :: jsnum
  col_b :: jsnum

definition SOLID_FOOTER_COLOR :: color where
  "SOLID_FOOTER_COLOR = \<lparr> col_r = Fin (110 / 255), col_g = Fin (31 / 255), col_b = Fin (93 / 255) \<rparr>"

text \<open>
  The calls that paint on a page of the document: \<open>page.drawRectangle\<close> with a fill colour,
  \<open>page.drawImage\<close> of the banner, and \<open>page.drawRectangle\<close> with a border, the outline of the
  debug preview. The first argument is the index of the page. The first two cover what
  is under them.
\<close>

datatype draw_op =
    FillRectangle nat "jsnum box" color
  | DrawImage nat "jsnum box"
  | OutlineRectangle nat "jsnum box"

fun op_page :: "draw_op \<Rightarrow> nat" where
  "op_page (FillRectangle i r c) = i"
| "op_page (DrawImage i r) = i"
| "op_page (OutlineRectangle i r) = i"

fun op_rect :: "draw_op \<Rightarrow> jsnum box" where
  "op_rect (FillRectangle i r c) = r"
| "op_rect (DrawImage i r) = r"
| "op_rect (OutlineRectangle i r) = r"

fun is_redaction :: "draw_op \<Rightarrow> bool" where
  "is_redaction (FillRectangle i r c) = True"
| "is_redaction (DrawImage i r) = True"
| "is_redaction (OutlineRectangle i r) = False"

text \<open>
  What one page gives the engine once it is rendered: the size of the bitmap, its RGB
  and grey buffers, the outcome of the request to the classifier (the request itself may
  fail), the colour \<open>sampleFillColor\<close> finds around a box (it decodes the page with the
  image library, which may throw; its three components are clamped averages of bytes),
  and the size of the page in the document.
\<close>

record page_input =
  pg_width :: nat
  pg_height :: nat
  pg_rgb :: "nat list"
  pg_channels :: nat
  pg_gray :: "nat list"
  pg_response :: "error + http_response"
  pg_fill :: "jsnum box \<Rightarrow> error + color"
  pg_size :: "jsnum size2"

text \<open>
  The environment of a job: the built-ins, the reference directory, the page counts of
  the document as the two libraries report them (or the failure to read it), the pixel
  size of the replacement banner embedded in the document (none when it could not be
  loaded), the pages (a page may fail to render), the error with which the PDF library
  answers a drawing call if it rejects it, the error of saving the document or writing
  one of the two files if there is one, and the time of the run.
\<close>

record job_env =
  je_js :: js_env
  je_refs :: refs_dir
  je_document :: "error + nat \<times> nat"
  je_banner :: "(nat \<times> nat) option"
  je_pages :: "nat \<Rightarrow> error + page_input"
  je_draw :: "draw_op \<Rightarrow> error option"
  je_written :: "error option"
  je_now :: string

record detection =
  det_footerZone :: "zone option"
  det_match :: match_result
  det_plausible :: bool
  det_aiProbe :: "probe option"
  det_wideFooterStrip :: bool

record decision =
  dec_action :: string
  dec_pdfRect :: "jsnum box option"
  dec_debugPreviewRect :: "jsnum box option"
  dec_draws :: "draw_op list"

text \<open>What the audit record keeps of the reply of the classifier.\<close>

record audit_probe =
  ap_found :: bool
  ap_confidence :: jsnum
  ap_bbox :: "jsnum box option"
  ap_rawText :: "string option"

record page_audit =
  pageNumber :: nat
  detectionScore :: jsnum
  pa_matchedReference :: "json option"
  pa_aiProbe :: "audit_probe option"
  pa_footerZone :: "zone option"
  pa_bboxPx :: "jsnum box option"
  pa_pdfRect :: "jsnum box option"
  pa_debugPreviewRect :: "jsnum box option"
  pa_plausible :: bool
  pa_action :: string

record summary =
  totalPages :: jsnum
  totalPagesInPdf :: nat
  sum_removed :: nat
  sum_review :: nat
  sum_none :: int
  statusHint :: string

record audit_doc =
  ad_mode :: string
  ad_detector :: string
  ad_formatKey :: string
  ad_formatProfile :: format_profile
  ad_processedAt :: string
  ad_autoThreshold :: jsnum
  ad_reviewThreshold :: jsnum
  ad_pages :: "page_audit list"
  ad_summary :: summary

record process_result =
  pagesTotal :: jsnum
  pagesProcessed :: jsnum
  progress :: nat
  hasReview :: bool
  removedCount :: nat
  reviewCount :: nat

text \<open>
  A job that ends well returns its result, has written the audit document, and has
  painted \<open>jo_draws\<close> on the document it saved. A job that fails tells its error and how
  many pages it had started.
\<close>

record job_outcome =
  jo_result :: process_result
  jo_audit :: audit_doc
  jo_draws :: "draw_op list"

record failure =
  fail_error :: error
  fail_pages_started :: nat

subsection \<open>Detection on one page\<close>

text \<open>
  \<open>Number(x.toFixed(4))\<close>: rounded to four decimals, the upper one of two nearest. The
  rounding is that of the exact value, not of its binary representation.
\<close>

fun toFixed4 :: "jsnum \<Rightarrow> jsnum" where
  "toFixed4 (Fin r) = Fin (of_int \<lfloor>r * 10000 + 1 / 2\<rfloor> / 10000)"
| "toFixed4 v = v"

text \<open>
  The branch \<open>if (config.forceFooterBanner)\<close>. \<open>Math.floor(height * 0.885)\<close> is taken as the
  exact integer quotient. Where \<open>detectFooterBand\<close> does not return, neither does the job:
  that is the value \<open>NeverReturns\<close>.
\<close>

definition footer_band_of :: "page_input \<Rightarrow> error + zone option" where
  "footer_band_of pg =
     (case detectFooterBand (pg_rgb pg) (pg_width pg) (pg_height pg)
             (if pg_channels pg = 0 then 3 else pg_channels pg) of
        None \<Rightarrow> Inl NeverReturns
      | Some z \<Rightarrow> Inr z)"

definition detect_forced :: "page_input \<Rightarrow> error + detection" where
  "detect_forced pg =
     (case footer_band_of pg of
        Inl e \<Rightarrow> Inl e
      | Inr footerZone \<Rightarrow>
          (let fallbackY0 = int ((pg_height pg * 885) div 1000);
               fallbackY1 = int (pg_height pg) - 1;
               y0 = (case footerZone of Some z \<Rightarrow> zone_y0 z | None \<Rightarrow> fallbackY0);
               y1 = (case footerZone of Some z \<Rightarrow> zone_y1 z | None \<Rightarrow> fallbackY1)
           in Inr \<lparr> det_footerZone = footerZone,
                    det_match =
                      \<lparr> score = Fin 1,
                        bboxPx = Some \<lparr> box_x = Fin 0, box_y = fin_int y0,
                                        box_width = fin_nat (pg_width pg),
                                        box_height = Math_max (Fin 1) (fin_int (y1 - y0)) \<rparr>,
                        matchedReference = Some (JStr ''footer-banner'') \<rparr>,
                    det_plausible = True,
                    det_aiProbe = None,
                    det_wideFooterStrip = True \<rparr>))"

text \<open>The branch \<open>else if (useAiDetector)\<close>.\<close>

definition detect_ai :: "js_env \<Rightarrow> page_input \<Rightarrow> error + detection" where
  "detect_ai js pg =
     (case pg_response pg of
        Inl e \<Rightarrow> Inl e
      | Inr response \<Rightarrow>
          (case detectLogoWithVision js response of
             Inl e \<Rightarrow> Inl e
           | Inr aiProbe \<Rightarrow>
               (let validFooterBox = (found aiProbe \<and> isFooterLogoBboxValid (bbox aiProbe));
                    wideFooterStrip = (found aiProbe \<and> isFooterStripCandidate (bbox aiProbe))
                in case (if found aiProbe then bbox aiProbe else None) of
                     Some b \<Rightarrow>
                       (let bboxPx =
                              \<lparr> box_x = Math_round (js_mul (box_x b) (fin_nat (pg_width pg))),
                                box_y = Math_round (js_mul (box_y b) (fin_nat (pg_height pg))),
                                box_width = Math_max (Fin 1)
                                  (Math_round (js_mul (box_width b) (fin_nat (pg_width pg)))),
                                box_height = Math_max (Fin 1)
                                  (Math_round (js_mul (box_height b) (fin_nat (pg_height pg)))) \<rparr>;
                            geometricOk = isBboxPlausible (Some bboxPx) (fin_nat (pg_width pg))
                                            (fin_nat (pg_height pg));
                            ok = (wideFooterStrip \<or> (validFooterBox \<and> geometricOk))
                        in Inr \<lparr> det_footerZone = None,
                                 det_match = \<lparr> score = (if ok then confidence aiProbe else Fin 0),
                                               bboxPx = Some bboxPx,
                                               matchedReference = ai_matchedReference aiProbe \<rparr>,
                                 det_plausible = ok,
                                 det_aiProbe = Some aiProbe,
                                 det_wideFooterStrip = wideFooterStrip \<rparr>)
                   | None \<Rightarrow>
                       Inr \<lparr> det_footerZone = None,
                             det_match = \<lparr> score = Fin 0, bboxPx = None, matchedReference = None \<rparr>,
                             det_plausible = False,
                             det_aiProbe = Some aiProbe,
                             det_wideFooterStrip = wideFooterStrip \<rparr>)))"

text \<open>The last branch: the deterministic matcher.\<close>

definition detect_deterministic :: "template list \<Rightarrow> page_input \<Rightarrow> error + detection" where
  "detect_deterministic templates pg =
     (case footer_band_of pg of
        Inl e \<Rightarrow> Inl e
      | Inr footerZone \<Rightarrow>
          (let pageEdges = computeEdgeMap (pg_gray pg) (pg_width pg) (pg_height pg) 22;
               m = detectLogoByTemplateMatch pageEdges (pg_width pg) (pg_height pg) templates footerZone
           in Inr \<lparr> det_footerZone = footerZone,
                    det_match = m,
                    det_plausible = isBboxPlausible (bboxPx m) (fin_nat (pg_width pg))
                                      (fin_nat (pg_height pg)),
                    det_aiProbe = None,
                    det_wideFooterStrip = False \<rparr>))"

definition useAiDetector :: "config \<Rightarrow> bool" where
  "useAiDetector cfg = (detectorMode cfg = ''ai-probe'' \<or> detectorMode cfg = ''ai-cut'')"

definition detect_page :: "config \<Rightarrow> js_env \<Rightarrow> template list \<Rightarrow> page_input \<Rightarrow> error + detection" where
  "detect_page cfg js templates pg =
     (if forceFooterBanner cfg then detect_forced pg
      else if useAiDetector cfg then detect_ai js pg
      else detect_deterministic templates pg)"

subsection \<open>Painting\<close>

text \<open>
  Drawing calls made one after the other: the first one the library rejects throws, and
  the calls after it are not reached.
\<close>

fun paint :: "(draw_op \<Rightarrow> error option) \<Rightarrow> draw_op list \<Rightarrow> error + draw_op list" where
  "paint draw [] = Inr []"
| "paint draw (c # calls) =
     (case draw c of
        Some e \<Rightarrow> Inl e
      | None \<Rightarrow> (case paint draw calls of Inl e \<Rightarrow> Inl e | Inr painted \<Rightarrow> Inr (c # painted)))"

text \<open>
  \<open>function drawBannerFitted(page, bannerImage, targetRect, options)\<close>, with the options
  the one caller passes: the fit, the background flag and the offset of the format
  profile, and the solid footer colour. \<open>imageSize\<close> is \<open>bannerImage.scale(1)\<close>, the pixel
  size of the image. \<open>Number(options?.bottomOffsetPx || 0)\<close> turns a NaN offset into 0.
\<close>

definition drawBannerFitted ::
  "(draw_op \<Rightarrow> error option) \<Rightarrow> nat \<Rightarrow> nat \<times> nat \<Rightarrow> jsnum box \<Rightarrow> format_profile
     \<Rightarrow> error + draw_op list" where
  "drawBannerFitted draw i imageSize targetRect options =
     (let cover = (bannerFit options = ''cover'');
          offset = (if bottomOffsetPx options = NaN \<or> bottomOffsetPx options = Fin 0 then Fin 0
                    else bottomOffsetPx options);
          imageAspect = js_div (fin_nat (fst imageSize)) (fin_nat (snd imageSize));
          targetAspect = js_div (box_width targetRect) (box_height targetRect);
          fitted = (if \<not> cover
                    then (if js_gt imageAspect targetAspect
                          then (box_width targetRect, js_div (box_width targetRect) imageAspect)
                          else (js_mul (box_height targetRect) imageAspect, box_height targetRect))
                    else (if js_gt imageAspect targetAspect
                          then (js_mul (box_height targetRect) imageAspect, box_height targetRect)
                          else (box_width targetRect, js_div (box_width targetRect) imageAspect)));
          drawWidth = fst fitted;
          drawHeight = snd fitted;
          drawX = js_add (box_x targetRect) (js_div (js_sub (box_width targetRect) drawWidth) (Fin 2));
          drawY = js_sub (js_add (box_y targetRect)
                            (js_div (js_sub (box_height targetRect) drawHeight) (Fin 2))) offset
      in paint draw
           ((if fillBackground options then [FillRectangle i targetRect SOLID_FOOTER_COLOR] else []) @
            [DrawImage i \<lparr> box_x = drawX, box_y = drawY, box_width = drawWidth,
                            box_height = drawHeight \<rparr>]))"

subsection \<open>Decision on one page\<close>

text \<open>
  Lines 682 to 718 of \<open>processPdf\<close>, the body of the first branch of the decision on page
  \<open>i\<close>: the rectangle, the colour, the drawing, and the action. Reading \<open>match.bboxPx.x\<close>
  of a null box is a \<open>TypeError\<close>. \<open>replacementBanner\<close> is the size of the banner image if
  there is one.
\<close>

definition redaction_of ::
  "config \<Rightarrow> format_profile \<Rightarrow> (nat \<times> nat) option \<Rightarrow> (draw_op \<Rightarrow> error option) \<Rightarrow> nat \<Rightarrow> page_input
     \<Rightarrow> detection \<Rightarrow> error + string \<times> jsnum box option \<times> draw_op list" where
  "redaction_of cfg formatProfile replacementBanner draw i pg d =
     (let m = det_match d;
          wideFooterStrip = det_wideFooterStrip d;
          renderSize = \<lparr> size_width = fin_nat (pg_width pg), size_height = fin_nat (pg_height pg) \<rparr>;
          bannerReplacementMode = (detectorMode cfg = ''ai-cut'' \<and> wideFooterStrip)
      in case (if bannerReplacementMode
               then Some (getStableFooterPdfRect (pg_size pg) (footerRatio formatProfile))
               else map_option (\<lambda>b. imageBboxToPdfRect b renderSize (pg_size pg)) (bboxPx m)) of
           None \<Rightarrow> Inl TypeError
         | Some pdfRect \<Rightarrow>
             (case (if detectorMode cfg = ''ai-cut'' \<and> wideFooterStrip
                    then Inr SOLID_FOOTER_COLOR
                    else (case bboxPx m of None \<Rightarrow> Inl TypeError | Some b \<Rightarrow> pg_fill pg b)) of
                Inl e \<Rightarrow> Inl e
              | Inr fill \<Rightarrow>
                  (let drawColor =
                         (if debugDrawBoxes cfg \<and> \<not> wideFooterStrip
                          then \<lparr> col_r = Fin 1, col_g = Fin 0, col_b = Fin 0 \<rparr>
                          else fill)
                   in case (case (if bannerReplacementMode then replacementBanner else None) of
                              Some img \<Rightarrow> drawBannerFitted draw i img pdfRect formatProfile
                            | None \<Rightarrow> paint draw [FillRectangle i pdfRect drawColor]) of
                        Inl e \<Rightarrow> Inl e
                      | Inr painted \<Rightarrow>
                          Inr (if wideFooterStrip then ''replaced_footer_banner'' else ''removed'',
                               Some pdfRect, painted))))"

text \<open>
  Lines 678 to 727 of \<open>processPdf\<close>: the action of page \<open>i\<close> and what is painted on it, the
  outline of the debug preview included.
\<close>

definition decide_page ::
  "config \<Rightarrow> format_profile \<Rightarrow> (nat \<times> nat) option \<Rightarrow> (draw_op \<Rightarrow> error option) \<Rightarrow> jsnum \<Rightarrow> jsnum
     \<Rightarrow> nat \<Rightarrow> page_input \<Rightarrow> detection \<Rightarrow> error + decision" where
  "decide_page cfg formatProfile replacementBanner draw autoThreshold reviewThreshold i pg d =
     (let m = det_match d;
          plausible = det_plausible d;
          renderSize = \<lparr> size_width = fin_nat (pg_width pg), size_height = fin_nat (pg_height pg) \<rparr>;
          first =
            (if detectorMode cfg \<noteq> ''ai-probe'' \<and> plausible \<and> js_ge (score m) autoThreshold
             then redaction_of cfg formatProfile replacementBanner draw i pg d
             else if plausible \<and> js_ge (score m) reviewThreshold
             then Inr (''review'', None, [])
             else Inr (''none'', None, []))
      in case first of
           Inl e \<Rightarrow> Inl e
         | Inr (action, pdfRect, draws) \<Rightarrow>
             (case (if debugDrawBoxes cfg \<and> action \<noteq> ''removed'' \<and> action \<noteq> ''removed_footer_strip'' \<and>
                       action \<noteq> ''replaced_footer_banner''
                    then map_option (\<lambda>b. imageBboxToPdfRect b renderSize (pg_size pg)) (bboxPx m)
                    else None) of
                Some debugPreviewRect \<Rightarrow>
                  (case paint draw [OutlineRectangle i debugPreviewRect] of
                     Inl e \<Rightarrow> Inl e
                   | Inr outlined \<Rightarrow>
                       Inr \<lparr> dec_action = action, dec_pdfRect = pdfRect,
                             dec_debugPreviewRect = Some debugPreviewRect,
                             dec_draws = draws @ outlined \<rparr>)
              | None \<Rightarrow>
                  Inr \<lparr> dec_action = action, dec_pdfRect = pdfRect, dec_debugPreviewRect = None,
                        dec_draws = draws \<rparr>))"

text \<open>
  A redaction was painted on page \<open>i\<close>: a filled rectangle or the banner, on a rectangle
  of real numbers with a positive width and height. No redaction was painted.
\<close>

definition redacted :: "nat \<Rightarrow> decision \<Rightarrow> bool" where
  "redacted i dec =
     list_ex (\<lambda>c. is_redaction c \<and> op_page c = i \<and> covering_box (op_rect c)) (dec_draws dec)"

definition no_redaction :: "decision \<Rightarrow> bool" where
  "no_redaction dec = (\<not> list_ex is_redaction (dec_draws dec))"

text \<open>
  What the decision takes from its surroundings, when they are as the engine expects
  them: the page was rendered with a positive width and height, its size in the
  document is a pair of real numbers, and the box of the match, if there is one, has
  real coordinates (none is NaN). Where the footer is replaced as a whole (the mode
  \<open>ai-cut\<close> on a wide footer strip), the size of the page and the footer ratio of the
  format profile are positive, and the banner image, if there is one, has a positive
  width and height and is moved by a real offset. Elsewhere the colour around the box
  can be sampled.
\<close>

definition regular_page ::
  "config \<Rightarrow> format_profile \<Rightarrow> (nat \<times> nat) option \<Rightarrow> page_input \<Rightarrow> detection \<Rightarrow> bool" where
  "regular_page cfg formatProfile replacementBanner pg d =
     (0 < pg_width pg \<and> 0 < pg_height pg \<and>
      is_fin (size_width (pg_size pg)) \<and> is_fin (size_height (pg_size pg)) \<and>
      (case bboxPx (det_match d) of None \<Rightarrow> True | Some b \<Rightarrow> finite_box b) \<and>
      (if detectorMode cfg = ''ai-cut'' \<and> det_wideFooterStrip d
       then js_lt (Fin 0) (size_width (pg_size pg)) \<and> js_lt (Fin 0) (size_height (pg_size pg)) \<and>
            is_fin (footerRatio formatProfile) \<and> js_lt (Fin 0) (footerRatio formatProfile) \<and>
            (case replacementBanner of
               None \<Rightarrow> True
             | Some img \<Rightarrow> 0 < fst img \<and> 0 < snd img \<and> is_fin (bottomOffsetPx formatProfile))
       else (case bboxPx (det_match d) of
               None \<Rightarrow> True
             | Some b \<Rightarrow> (case pg_fill pg b of Inl e \<Rightarrow> False | Inr c \<Rightarrow> True))))"

subsection \<open>The job\<close>

text \<open>\<open>rawText: aiProbe.rawText || null\<close> and the three fields copied with it.\<close>

definition audit_of_probe :: "probe \<Rightarrow> audit_probe" where
  "audit_of_probe p =
     \<lparr> ap_found = found p, ap_confidence = confidence p, ap_bbox = bbox p,
       ap_rawText = (if rawText p = [] then None else Some (rawText p)) \<rparr>"

text \<open>One turn of the page loop: render, detect, decide, and the audit record of the page.\<close>

definition process_page ::
  "config \<Rightarrow> job_env \<Rightarrow> format_profile \<Rightarrow> (nat \<times> nat) option \<Rightarrow> jsnum \<Rightarrow> jsnum \<Rightarrow> template list \<Rightarrow> nat
     \<Rightarrow> error + page_audit \<times> draw_op list" where
  "process_page cfg env formatProfile replacementBanner autoThreshold reviewThreshold templates i =
     (case je_pages env i of
        Inl e \<Rightarrow> Inl e
      | Inr pg \<Rightarrow>
          (case detect_page cfg (je_js env) templates pg of
             Inl e \<Rightarrow> Inl e
           | Inr d \<Rightarrow>
               (case decide_page cfg formatProfile replacementBanner (je_draw env) autoThreshold
                       reviewThreshold i pg d of
                  Inl e \<Rightarrow> Inl e
                | Inr dec \<Rightarrow>
                    Inr (\<lparr> pageNumber = i + 1,
                           detectionScore = toFixed4 (score (det_match d)),
                           pa_matchedReference = matchedReference (det_match d),
                           pa_aiProbe = map_option audit_of_probe (det_aiProbe d),
                           pa_footerZone = det_footerZone d,
                           pa_bboxPx = bboxPx (det_match d),
                           pa_pdfRect = dec_pdfRect dec,
                           pa_debugPreviewRect = dec_debugPreviewRect dec,
                           pa_plausible = det_plausible d,
                           pa_action = dec_action dec \<rparr>,
                         dec_draws dec))))"

text \<open>
  \<open>totalPagesInPdf\<close>, \<open>totalPages\<close> and \<open>pagesToProcess\<close>, lines 599 to 601. \<open>Math.min\<close> of a NaN
  limit is NaN, and \<open>NaN > 0\<close> is false.
\<close>

definition pages_to_process :: "config \<Rightarrow> nat \<times> nat \<Rightarrow> jsnum" where
  "pages_to_process cfg counts =
     (let totalPagesInPdf = fin_nat (min (fst counts) (snd counts));
          totalPages = Math_min (Math_min totalPagesInPdf (maxPagesPerJob cfg)) (aiMaxPagesPerJob cfg)
      in if js_gt (aiPageLimit cfg) (Fin 0) then Math_min totalPages (aiPageLimit cfg) else totalPages)"

text \<open>
  The indices that \<open>for (let i = 0; i < pagesToProcess; i += 1)\<close> visits: 0, 1, 2 and so on
  while \<open>i < pagesToProcess\<close> holds. \<open>pagesToProcess\<close> is NaN or at most the page count of
  the document, so the test fails at the page count at the latest: the indices are
  taken from those up to it.
\<close>

definition loop_indices :: "jsnum \<Rightarrow> nat \<Rightarrow> nat list" where
  "loop_indices pagesToProcess pageCount =
     takeWhile (\<lambda>i. js_lt (fin_nat i) pagesToProcess) [0..<Suc pageCount]"

text \<open>The body of the loop over these indices; an error ends the job at that page.\<close>

fun page_loop ::
  "(nat \<Rightarrow> error + page_audit \<times> draw_op list) \<Rightarrow> nat list \<Rightarrow> page_audit list \<times> draw_op list
     \<Rightarrow> failure + page_audit list \<times> draw_op list" where
  "page_loop body [] acc = Inr acc"
| "page_loop body (i # indices) acc =
     (case body i of
        Inl e \<Rightarrow> Inl \<lparr> fail_error = e, fail_pages_started = i + 1 \<rparr>
      | Inr (a, draws) \<Rightarrow> page_loop body indices (fst acc @ [a], snd acc @ draws))"

definition before_pages :: "error \<Rightarrow> failure" where
  "before_pages e = \<lparr> fail_error = e, fail_pages_started = 0 \<rparr>"

definition is_removed :: "page_audit \<Rightarrow> bool" where
  "is_removed p =
     (pa_action p = ''removed'' \<or> pa_action p = ''removed_footer_strip'' \<or>
      pa_action p = ''replaced_footer_banner'')"

text \<open>
  The page cap in the words of the claim: the least of the page count of the document,
  \<open>maxPagesPerJob\<close>, \<open>aiMaxPagesPerJob\<close>, and \<open>aiPageLimit\<close> when that is positive.
\<close>

definition page_cap_spec :: "config \<Rightarrow> nat \<Rightarrow> jsnum" where
  "page_cap_spec cfg pageCount =
     fold Math_min ([maxPagesPerJob cfg, aiMaxPagesPerJob cfg] @
                    (if js_gt (aiPageLimit cfg) (Fin 0) then [aiPageLimit cfg] else []))
          (fin_nat pageCount)"

text \<open>
  The end of \<open>processPdf\<close>: the counts, the audit document and the returned object, from
  the audit records and the operations of the loop.
\<close>

definition finish_job ::
  "config \<Rightarrow> settings \<Rightarrow> job_env \<Rightarrow> string \<Rightarrow> format_profile \<Rightarrow> jsnum \<Rightarrow> jsnum \<Rightarrow> nat \<times> nat
     \<Rightarrow> page_audit list \<times> draw_op list \<Rightarrow> job_outcome" where
  "finish_job cfg st env formatKey formatProfile autoThreshold reviewThreshold counts done =
     (let auditPages = fst done;
          pagesToProcess = pages_to_process cfg counts;
          removed = length (filter is_removed auditPages);
          review = length (filter (\<lambda>p. pa_action p = ''review'') auditPages);
          none = int (length auditPages) - int removed - int review
      in \<lparr> jo_result =
             \<lparr> pagesTotal = pagesToProcess, pagesProcessed = pagesToProcess, progress = 100,
               hasReview = (0 < review \<or> removed = 0), removedCount = removed,
               reviewCount = review \<rparr>,
           jo_audit =
             \<lparr> ad_mode = (case set_mode st of Some m \<Rightarrow> if m = [] then ''overlay'' else m
                                            | None \<Rightarrow> ''overlay''),
               ad_detector = (if detectorMode cfg = ''ai-probe'' then ''ai-probe-v1''
                              else if detectorMode cfg = ''ai-cut'' then ''ai-cut-v1''
                              else ''template-match-v2''),
               ad_formatKey = formatKey,
               ad_formatProfile = formatProfile,
               ad_processedAt = je_now env,
               ad_autoThreshold = autoThreshold,
               ad_reviewThreshold = reviewThreshold,
               ad_pages = auditPages,
               ad_summary =
                 \<lparr> totalPages = pagesToProcess,
                   totalPagesInPdf = min (fst counts) (snd counts),
                   sum_removed = removed, sum_review = review, sum_none = none,
                   statusHint = (if 0 < review \<or> removed = 0 then ''needs_review''
                                 else ''completed'') \<rparr> \<rparr>,
           jo_draws = snd done \<rparr>)"

text \<open>
  \<open>export async function processPdf(jobData)\<close>. The templates or the reference images
  are loaded first, then the document is opened and, in the mode \<open>ai-cut\<close>, the banner
  embedded, then the pages are processed in order, then the document and the audit are
  written. An error at any step ends the job; when the writing fails, every page had
  been started.
\<close>

definition processPdf :: "config \<Rightarrow> settings \<Rightarrow> job_env \<Rightarrow> failure + job_outcome" where
  "processPdf cfg st env =
     (let formatKey = (case set_formatKey st of Some k \<Rightarrow> if k = [] then ''style_a'' else k
                                              | None \<Rightarrow> ''style_a'');
          formatProfile = (case formatProfiles cfg formatKey of Some p \<Rightarrow> p | None \<Rightarrow> style_a cfg);
          autoThreshold = (case set_autoThreshold st of Some t \<Rightarrow> t | None \<Rightarrow> matchAutoThreshold cfg);
          reviewThreshold = (case set_reviewThreshold st of Some t \<Rightarrow> t
                                                           | None \<Rightarrow> matchReviewThreshold cfg)
      in case (if useAiDetector cfg then Inr [] else loadLogoTemplates (je_refs env)) of
           Inl e \<Rightarrow> Inl (before_pages e)
         | Inr templates \<Rightarrow>
             (case (if useAiDetector cfg then loadLogoReferenceImages (je_refs env) else Inr []) of
                Inl e \<Rightarrow> Inl (before_pages e)
              | Inr logoRefs \<Rightarrow>
                  (case je_document env of
                     Inl e \<Rightarrow> Inl (before_pages e)
                   | Inr counts \<Rightarrow>
                       (let replacementBanner = (if detectorMode cfg = ''ai-cut'' then je_banner env
                                                 else None);
                            indices = loop_indices (pages_to_process cfg counts)
                                        (min (fst counts) (snd counts))
                        in case page_loop
                                  (process_page cfg env formatProfile replacementBanner autoThreshold
                                     reviewThreshold templates)
                                  indices ([], []) of
                             Inl f \<Rightarrow> Inl f
                           | Inr done \<Rightarrow>
                               (case je_written env of
                                  Some e \<Rightarrow>
                                    Inl \<lparr> fail_error = e, fail_pages_started = length indices \<rparr>
                                | None \<Rightarrow>
                                    Inr (finish_job cfg st env formatKey formatProfile autoThreshold
                                           reviewThreshold counts done))))))"


section \<open>Concrete inputs\<close>

text \<open>A 2 by 2 template with edges in its top row, and a zone that is a whole 6 by 6 page.\<close>

definition example_template :: template where
  "example_template = \<lparr> refName = ''logo.png'', t_width = 2, t_height = 2, t_edges = [1, 1, 0, 0] \<rparr>"

definition example_zone :: zone where
  "example_zone = \<lparr> zone_x0 = 0, zone_y0 = 0, zone_x1 = 6, zone_y1 = 6 \<rparr>"

text \<open>
  A zone over the top two rows of that page, exactly as high as the template, and a
  template of one row, the top row of \<open>example_template\<close>, under another name.
\<close>

definition exact_fit_zone :: zone where
  "exact_fit_zone = \<lparr> zone_x0 = 0, zone_y0 = 0, zone_x1 = 6, zone_y1 = 2 \<rparr>"

definition row_template :: template where
  "row_template = \<lparr> refName = ''row.png'', t_width = 2, t_height = 1, t_edges = [1, 1] \<rparr>"

text \<open>A template of the same size with the edges in its bottom row.\<close>

definition other_template :: template where
  "other_template = \<lparr> refName = ''other.png'', t_width = 2, t_height = 2, t_edges = [0, 0, 1, 1] \<rparr>"

text \<open>
  A bitmap one pixel wide with three channels: the bottom \<open>h\<close> rows are the footer colour
  \<open>#6E1F5D\<close>, the rows above are white.
\<close>

definition footer_bitmap :: "nat \<Rightarrow> nat \<Rightarrow> nat list" where
  "footer_bitmap height h =
     map (\<lambda>i. if i div 3 < height - h then 255 else [110, 31, 93] ! (i mod 3)) [0..<height * 3]"

text \<open>
  Replies of the classifier. \<open>reply_nan\<close> is one object whose confidence is the word
  \<open>high\<close> instead of a number:
  \<^verbatim>\<open>{"found":true,"confidence":"high","bbox":{"x":0.5,"y":0.8,"width":0.2,"height":0.1}}\<close>
  \<open>reply_two\<close> is an array of two objects, the first with the confidence \<open>high\<close> and
  \<open>x = 0.1\<close>, the second with the confidence 0.9 and \<open>x = 0.5\<close>. \<open>reply_good\<close> is one
  object with the confidence 0.9 inside a code fence, and \<open>body_good\<close> the response
  body that carries it as \<open>output_text\<close>. \<open>example_env\<close> gives what
  \<open>JSON.parse\<close> returns on these texts, and NaN for \<open>Number("high")\<close>, the only string the
  examples convert.
\<close>

definition quoted :: "string \<Rightarrow> string" where
  "quoted s = CHR 0x22 # s @ [CHR 0x22]"

definition bbox_text :: "string \<Rightarrow> string" where
  "bbox_text x =
     quoted ''bbox'' @ '':{'' @ quoted ''x'' @ '':'' @ x @ '','' @ quoted ''y'' @ '':0.8,'' @
     quoted ''width'' @ '':0.2,'' @ quoted ''height'' @ '':0.1}''"

definition object_text :: "string \<Rightarrow> string \<Rightarrow> string" where
  "object_text c x =
     ''{'' @ quoted ''found'' @ '':true,'' @ quoted ''confidence'' @ '':'' @ c @ '','' @
     bbox_text x @ ''}''"

definition bbox_json :: "real \<Rightarrow> json" where
  "bbox_json x =
     JObj [(''x'', JNum (Fin x)), (''y'', JNum (Fin 0.8)), (''width'', JNum (Fin 0.2)),
           (''height'', JNum (Fin 0.1))]"

definition object_json :: "json \<Rightarrow> real \<Rightarrow> json" where
  "object_json c x = JObj [(''found'', JBool True), (''confidence'', c), (''bbox'', bbox_json x)]"

definition reply_nan :: string where
  "reply_nan = object_text (quoted ''high'') ''0.5''"

definition reply_two :: string where
  "reply_two = ''['' @ object_text (quoted ''high'') ''0.1'' @ '','' @ object_text ''0.9'' ''0.5'' @ '']''"

definition reply_good :: string where
  "reply_good = [CHR 0x60, CHR 0x60, CHR 0x60] @ ''json'' @ [CHR 0x0A] @ object_text ''0.9'' ''0.5'' @
                [CHR 0x0A] @ [CHR 0x60, CHR 0x60, CHR 0x60]"

definition escaped :: "string \<Rightarrow> string" where
  "escaped s =
     concat (map (\<lambda>c. if c = CHR 0x22 then [CHR 0x5C, CHR 0x22]
                        else if c = CHR 0x0A then [CHR 0x5C, CHR ''n''] else [c]) s)"

definition body_good :: string where
  "body_good = ''{'' @ quoted ''output_text'' @ '':'' @ quoted (escaped reply_good) @ ''}''"

definition example_env :: js_env where
  "example_env =
     \<lparr> JSON_parse = (\<lambda>s.
          if s = reply_nan then Some (object_json (JStr ''high'') 0.5)
          else if s = reply_two
          then Some (JArr [object_json (JStr ''high'') 0.1, object_json (JNum (Fin 0.9)) 0.5])
          else if s = object_text ''0.9'' ''0.5'' then Some (object_json (JNum (Fin 0.9)) 0.5)
          else if s = body_good then Some (JObj [(''output_text'', JStr reply_good)])
          else None),
       StringToNumber = (\<lambda>s. NaN),
       ArrayToNumber = (\<lambda>xs. NaN) \<rparr>"

text \<open>
  A job on the classifier path: a page rendered at 1000 by 1000 pixels of a 500 by 500
  document page, whose request is answered with \<open>body_good\<close>; a configuration in the mode
  \<open>ai-cut\<close> and the same in the mode \<open>ai-probe\<close>, both with the default thresholds 0.62 and
  0.48 and a limit of two pages, and the same with a limit of one page and a half; a
  reference directory with one image, a white strip of 400 by 10 pixels whose variants
  are all lower than 12 pixels; a PDF library that rejects a rectangle with a coordinate
  that is not a real number; a document of three pages.
\<close>

definition example_profile :: format_profile where
  "example_profile =
     \<lparr> footerRatio = Fin 0.112, bannerFit = ''contain'', fillBackground = True,
       bottomOffsetPx = Fin 0 \<rparr>"

definition default_auto :: jsnum where
  "default_auto = Fin 0.62"

definition default_review :: jsnum where
  "default_review = Fin 0.48"

definition cut_config :: config where
  "cut_config =
     \<lparr> detectorMode = ''ai-cut'', forceFooterBanner = False, debugDrawBoxes = False,
       maxPagesPerJob = Fin 200, aiMaxPagesPerJob = Fin 100, aiPageLimit = Fin 2,
       matchAutoThreshold = default_auto, matchReviewThreshold = default_review,
       formatProfiles = (\<lambda>k. if k = ''style_a'' then Some example_profile else None),
       style_a = example_profile \<rparr>"

definition probe_config :: config where
  "probe_config = cut_config \<lparr> detectorMode := ''ai-probe'' \<rparr>"

definition fraction_config :: config where
  "fraction_config = cut_config \<lparr> aiPageLimit := Fin 1.5 \<rparr>"

definition deterministic_config :: config where
  "deterministic_config = cut_config \<lparr> detectorMode := ''deterministic'' \<rparr>"

definition white :: color where
  "white = \<lparr> col_r = Fin 1, col_g = Fin 1, col_b = Fin 1 \<rparr>"

definition ai_page :: page_input where
  "ai_page =
     \<lparr> pg_width = 1000, pg_height = 1000, pg_rgb = [], pg_channels = 3, pg_gray = [],
       pg_response = Inr \<lparr> resp_ok = True, resp_status = 200, resp_body = body_good \<rparr>,
       pg_fill = (\<lambda>b. Inr white), pg_size = fin_size 500 500 \<rparr>"

definition good_probe :: probe where
  "good_probe =
     \<lparr> found = True, confidence = Fin 0.9, bbox = Some (fin_box 0.5 0.8 0.2 0.1),
       ai_matchedReference = None, rawText = reply_good \<rparr>"

definition ai_detection :: detection where
  "ai_detection =
     \<lparr> det_footerZone = None,
       det_match = \<lparr> score = Fin 0.9, bboxPx = Some (fin_box 500 800 200 100),
                     matchedReference = None \<rparr>,
       det_plausible = True, det_aiProbe = Some good_probe, det_wideFooterStrip = False \<rparr>"

text \<open>
  The same configuration with the footer banner forced on every page, a page rendered as
  one white pixel, on which no footer band is found, and what detection gives on it: the
  fallback box over the whole width, classified as a wide footer strip.
\<close>

definition forced_config :: config where
  "forced_config = cut_config \<lparr> forceFooterBanner := True \<rparr>"

definition small_page :: page_input where
  "small_page = ai_page \<lparr> pg_width := 1, pg_height := 1 \<rparr>"

definition forced_detection :: detection where
  "forced_detection =
     \<lparr> det_footerZone = None,
       det_match = \<lparr> score = Fin 1, bboxPx = Some (fin_box 0 0 1 1),
                     matchedReference = Some (JStr ''footer-banner'') \<rparr>,
       det_plausible = True, det_aiProbe = None, det_wideFooterStrip = True \<rparr>"

definition one_image_dir :: refs_dir where
  "one_image_dir =
     \<lparr> dir_names = Inr [''logo.png''],
       trimmed_meta = (\<lambda>f. Inr (400, 10)),
       resized_variant =
         (\<lambda>f w. Inr \<lparr> img_width = w, img_height = w div 40,
                         img_data = replicate (w * (w div 40)) 255 \<rparr>),
       resized_png = (\<lambda>f. Inr ''png'') \<rparr>"

definition no_image_dir :: refs_dir where
  "no_image_dir = one_image_dir \<lparr> dir_names := Inr [''notes.txt''] \<rparr>"

definition no_settings :: settings where
  "no_settings =
     \<lparr> set_autoThreshold = None, set_reviewThreshold = None, set_formatKey = None,
       set_mode = None \<rparr>"

definition example_draw :: "draw_op \<Rightarrow> error option" where
  "example_draw c = (if finite_box (op_rect c) then None else Some (LibraryFailure ''NaN''))"

definition example_job :: job_env where
  "example_job =
     \<lparr> je_js = example_env, je_refs = one_image_dir, je_document = Inr (3, 3),
       je_banner = Some (800, 100), je_pages = (\<lambda>i. Inr ai_page), je_draw = example_draw,
       je_written = None,
       je_now = ''2026-01-01T00:00:00.000Z'' \<rparr>"

text \<open>
  What the job \<open>example_job\<close> gives in the mode \<open>ai-cut\<close>: two of the three pages are
  processed, and on both the logo is covered with the sampled colour.
\<close>

definition example_audit :: "nat \<Rightarrow> page_audit" where
  "example_audit i =
     \<lparr> pageNumber = i + 1, detectionScore = Fin 0.9, pa_matchedReference = None,
       pa_aiProbe = Some \<lparr> ap_found = True, ap_confidence = Fin 0.9,
                           ap_bbox = Some (fin_box 0.5 0.8 0.2 0.1),
                           ap_rawText = Some reply_good \<rparr>,
       pa_footerZone = None,
       pa_bboxPx = Some (fin_box 500 800 200 100), pa_pdfRect = Some (fin_box 250 50 100 50),
       pa_debugPreviewRect = None, pa_plausible = True, pa_action = ''removed'' \<rparr>"

definition example_outcome :: job_outcome where
  "example_outcome =
     \<lparr> jo_result =
         \<lparr> pagesTotal = Fin 2, pagesProcessed = Fin 2, progress = 100, hasReview = False,
           removedCount = 2, reviewCount = 0 \<rparr>,
       jo_audit =
         \<lparr> ad_mode = ''overlay'', ad_detector = ''ai-cut-v1'', ad_formatKey = ''style_a'',
           ad_formatProfile = example_profile, ad_processedAt = ''2026-01-01T00:00:00.000Z'',
           ad_autoThreshold = default_auto, ad_reviewThreshold = default_review,
           ad_pages = [example_audit 0, example_audit 1],
           ad_summary =
             \<lparr> totalPages = Fin 2, totalPagesInPdf = 3, sum_removed = 2, sum_review = 0,
               sum_none = 0, statusHint = ''completed'' \<rparr> \<rparr>,
       jo_draws = [FillRectangle 0 (fin_box 250 50 100 50) white,
                   FillRectangle 1 (fin_box 250 50 100 50) white] \<rparr>"


section \<open>Properties of the geometry mapper\<close>

lemma clamp_Fin: "clamp (Fin v) (Fin lo) (Fin hi) = Fin (max lo (min hi v))"
  by (simp add: clamp_def Math_min_def Math_max_def max_def min_def)

lemma imageBboxToPdfRect_Fin:
  assumes "rw \<noteq> 0" "rh \<noteq> 0"
  shows "imageBboxToPdfRect (fin_box bx by' bw bh) (fin_size rw rh) (fin_size pw ph) =
     fin_box (max 0 (min pw (bx / rw * pw)))
             (max 0 (min ph (ph - by' / rh * ph - bh / rh * ph)))
             (max 1 (min pw (bw / rw * pw))) (max 1 (min ph (bh / rh * ph)))"
  using assms
  by (simp add: imageBboxToPdfRect_def fin_box_def fin_size_def clamp_Fin js_sub_def Let_def)

lemma pdfRectToImageBbox_spec_Fin:
  assumes "pw \<noteq> 0" "ph \<noteq> 0"
  shows "pdfRectToImageBbox_spec (fin_box a b c d) (fin_size rw rh) (fin_size pw ph) =
     fin_box (a / pw * rw) ((ph - b - d) / ph * rh) (c / pw * rw) (d / ph * rh)"
  using assms by (simp add: pdfRectToImageBbox_spec_def fin_box_def fin_size_def js_sub_def)

lemma scale_le:
  fixes a r p :: real
  assumes "0 < r" "0 \<le> p" "a \<le> r"
  shows "a / r * p \<le> p"
proof -
  have "a / r \<le> 1" using assms(1,3) by simp
  then have "a / r * p \<le> 1 * p" using assms(2) by (rule mult_right_mono)
  then show ?thesis by simp
qed

lemma scale_ge1:
  fixes a r p :: real
  assumes "0 < r" "r \<le> a * p"
  shows "1 \<le> a / r * p"
  using assms by (simp add: pos_le_divide_eq)

lemma imageBboxToPdfRect_in_page:
  assumes "rw \<noteq> 0" "rh \<noteq> 0" "0 \<le> pw" "0 \<le> ph"
  shows "let r = imageBboxToPdfRect (fin_box bx by' bw bh) (fin_size rw rh) (fin_size pw ph) in
     js_le (Fin 0) (box_x r) \<and> js_le (box_x r) (Fin pw) \<and>
     js_le (Fin 0) (box_y r) \<and> js_le (box_y r) (Fin ph) \<and>
     js_le (Fin 1) (box_width r) \<and> js_le (Fin 1) (box_height r)"
  unfolding imageBboxToPdfRect_Fin[OF assms(1,2)] using assms(3,4) by (simp add: fin_box_def)

lemma imageBboxToPdfRect_inverse:
  assumes "0 < rw" "0 < rh" "0 < pw" "0 < ph"
    and "0 \<le> bx" "bx \<le> rw" "0 \<le> by'" "by' + bh \<le> rh"
    and "rw \<le> bw * pw" "bw \<le> rw" "rh \<le> bh * ph"
  shows "pdfRectToImageBbox_spec
           (imageBboxToPdfRect (fin_box bx by' bw bh) (fin_size rw rh) (fin_size pw ph))
           (fin_size rw rh) (fin_size pw ph) = fin_box bx by' bw bh"
proof -
  have bh0: "0 < bh" using assms(2,4,11) by (smt (verit) mult_nonpos_nonneg)
  have x: "0 \<le> bx / rw * pw" "bx / rw * pw \<le> pw"
    using assms(1,3,5,6) scale_le[of rw pw bx] by simp_all
  have w: "1 \<le> bw / rw * pw" "bw / rw * pw \<le> pw"
    using assms(1,3,9,10) scale_le[of rw pw bw] scale_ge1[of rw bw pw] by simp_all
  have h: "1 \<le> bh / rh * ph" "bh / rh * ph \<le> ph"
    using assms(2,4,7,8,11) bh0 scale_le[of rh ph bh] scale_ge1[of rh bh ph] by simp_all
  have t: "0 \<le> (by' + bh) / rh" "(by' + bh) / rh \<le> 1" using assms(2,7,8) bh0 by simp_all
  have yeq: "ph - by' / rh * ph - bh / rh * ph = ph * (1 - (by' + bh) / rh)"
    by (simp add: algebra_simps add_divide_distrib)
  have y: "0 \<le> ph - by' / rh * ph - bh / rh * ph" "ph - by' / rh * ph - bh / rh * ph \<le> ph"
    unfolding yeq using t assms(4) by (simp_all add: mult_left_le)
  have nz: "rw \<noteq> 0" "rh \<noteq> 0" "pw \<noteq> 0" "ph \<noteq> 0" using assms(1-4) by simp_all
  have m: "max 0 (min pw (bx / rw * pw)) = bx / rw * pw"
     "max 1 (min pw (bw / rw * pw)) = bw / rw * pw"
     "max 1 (min ph (bh / rh * ph)) = bh / rh * ph"
     "max 0 (min ph (ph - by' / rh * ph - bh / rh * ph)) = ph - by' / rh * ph - bh / rh * ph"
    using x w h y by simp_all
  have e: "bx / rw * pw / pw * rw = bx" "bw / rw * pw / pw * rw = bw"
    "bh / rh * ph / ph * rh = bh"
    using nz by simp_all
  have e2: "(ph - (ph - by' / rh * ph - bh / rh * ph) - bh / rh * ph) / ph * rh = by'"
    using nz by simp
  show ?thesis
    by (simp only: imageBboxToPdfRect_Fin[OF nz(1,2)] pdfRectToImageBbox_spec_Fin[OF nz(3,4)] m e e2)
qed

text \<open>
  C3, as the code has it. The clamps of \<open>imageBboxToPdfRect\<close> are what keeps the rectangle
  on the page, and they are also what breaks the round trip: a box that reaches below the
  bottom of the raster is moved up onto the page, and mapping it back gives a different
  box. The claim as stated fails at the box \<open>{x: 100, y: 900, width: 200, height: 150}\<close> of
  a 1000 by 1000 raster of a 500 by 500 page, where the round trip returns \<open>y = 850\<close>.
\<close>

theorem imageBboxToPdfRect_roundtrip_counterexample:
  "\<not> box_within 1
       (pdfRectToImageBbox_spec
          (imageBboxToPdfRect (fin_box 100 900 200 150) (fin_size 1000 1000) (fin_size 500 500))
          (fin_size 1000 1000) (fin_size 500 500))
       (fin_box 100 900 200 150)"
proof -
  have "imageBboxToPdfRect (fin_box 100 900 200 150) (fin_size 1000 1000) (fin_size 500 500)
          = fin_box 50 0 100 75"
    by (simp add: imageBboxToPdfRect_Fin)
  then show ?thesis
    by (simp add: pdfRectToImageBbox_spec_Fin) (simp add: box_within_def fin_box_def)
qed

text \<open>
  C3 (amended): for a finite pixel box, a raster and a page of positive size, the
  rectangle returned by \<open>imageBboxToPdfRect\<close> has \<open>x\<close> in \<open>[0, pageW]\<close>, \<open>y\<close> in \<open>[0, pageH]\<close>
  and width and height at least 1; and when the box lies inside the raster
  (\<open>0 \<le> x \<le> renderW\<close>, \<open>0 \<le> y\<close>, \<open>y + height \<le> renderH\<close>, \<open>width \<le> renderW\<close>) and its mapped
  width and height are at least one page unit, so that no clamp changes a coordinate,
  mapping the rectangle back with the inverse linear mapping returns the original box
  exactly (in exact arithmetic), hence within one unit per coordinate.
\<close>

theorem imageBboxToPdfRect_bounds_and_roundtrip:
  assumes "0 < rw" "0 < rh" "0 < pw" "0 < ph"
  shows "(let r = imageBboxToPdfRect (fin_box bx by' bw bh) (fin_size rw rh) (fin_size pw ph) in
            js_le (Fin 0) (box_x r) \<and> js_le (box_x r) (Fin pw) \<and>
            js_le (Fin 0) (box_y r) \<and> js_le (box_y r) (Fin ph) \<and>
            js_le (Fin 1) (box_width r) \<and> js_le (Fin 1) (box_height r)) \<and>
         (0 \<le> bx \<and> bx \<le> rw \<and> 0 \<le> by' \<and> by' + bh \<le> rh \<and>
          rw \<le> bw * pw \<and> bw \<le> rw \<and> rh \<le> bh * ph \<longrightarrow>
            (let back = pdfRectToImageBbox_spec
                 (imageBboxToPdfRect (fin_box bx by' bw bh) (fin_size rw rh) (fin_size pw ph))
                 (fin_size rw rh) (fin_size pw ph)
             in back = fin_box bx by' bw bh \<and> box_within 1 back (fin_box bx by' bw bh)))"
proof (intro conjI impI)
  show "let r = imageBboxToPdfRect (fin_box bx by' bw bh) (fin_size rw rh) (fin_size pw ph) in
            js_le (Fin 0) (box_x r) \<and> js_le (box_x r) (Fin pw) \<and>
            js_le (Fin 0) (box_y r) \<and> js_le (box_y r) (Fin ph) \<and>
            js_le (Fin 1) (box_width r) \<and> js_le (Fin 1) (box_height r)"
    using assms by (intro imageBboxToPdfRect_in_page) simp_all
next
  assume a: "0 \<le> bx \<and> bx \<le> rw \<and> 0 \<le> by' \<and> by' + bh \<le> rh \<and>
          rw \<le> bw * pw \<and> bw \<le> rw \<and> rh \<le> bh * ph"
  have "pdfRectToImageBbox_spec
           (imageBboxToPdfRect (fin_box bx by' bw bh) (fin_size rw rh) (fin_size pw ph))
           (fin_size rw rh) (fin_size pw ph) = fin_box bx by' bw bh"
    using assms a by (intro imageBboxToPdfRect_inverse) simp_all
  then show "let back = pdfRectToImageBbox_spec
                 (imageBboxToPdfRect (fin_box bx by' bw bh) (fin_size rw rh) (fin_size pw ph))
                 (fin_size rw rh) (fin_size pw ph)
             in back = fin_box bx by' bw bh \<and> box_within 1 back (fin_box bx by' bw bh)"
    by (simp add: box_within_def fin_box_def)
qed

theorem imageBboxToPdfRect_bounds_and_roundtrip_witness:
  "imageBboxToPdfRect (fin_box 100 700 200 150) (fin_size 1000 1000) (fin_size 500 500)
     = fin_box 50 75 100 75 \<and>
   pdfRectToImageBbox_spec
     (imageBboxToPdfRect (fin_box 100 700 200 150) (fin_size 1000 1000) (fin_size 500 500))
     (fin_size 1000 1000) (fin_size 500 500) = fin_box 100 700 200 150"
proof -
  have "imageBboxToPdfRect (fin_box 100 700 200 150) (fin_size 1000 1000) (fin_size 500 500)
     = fin_box 50 75 100 75"
    by (simp add: imageBboxToPdfRect_Fin)
  moreover have "pdfRectToImageBbox_spec
     (imageBboxToPdfRect (fin_box 100 700 200 150) (fin_size 1000 1000) (fin_size 500 500))
     (fin_size 1000 1000) (fin_size 500 500) = fin_box 100 700 200 150"
    using imageBboxToPdfRect_bounds_and_roundtrip[of 1000 1000 500 500 100 700 200 150]
    by (simp add: Let_def)
  ultimately show ?thesis by simp
qed

section \<open>Properties of the deterministic matcher\<close>

lemma fold_count_row:
  "fold (\<lambda>tx c. count_step (P tx) (T tx) c) xs (a, b, c) =
     (a + length (filter (\<lambda>tx. P tx \<and> T tx) xs),
      b + length (filter (\<lambda>tx. P tx \<and> \<not> T tx) xs),
      c + length (filter (\<lambda>tx. \<not> P tx \<and> T tx) xs))"
  by (induction xs arbitrary: a b c) (auto simp: count_step_def)

lemma length_filter_Pair:
  "length (filter Q (map (Pair y) xs)) = length (filter (\<lambda>x. Q (y, x)) xs)"
  by (induction xs) auto

lemma fold_count_window:
  "fold (\<lambda>ty c. fold (\<lambda>tx c. count_step (P (ty, tx)) (T (ty, tx)) c) xs c) ys (a, b, c) =
     (a + length (filter (\<lambda>c. P c \<and> T c) (List.product ys xs)),
      b + length (filter (\<lambda>c. P c \<and> \<not> T c) (List.product ys xs)),
      c + length (filter (\<lambda>c. \<not> P c \<and> T c) (List.product ys xs)))"
proof (induction ys arbitrary: a b c)
  case Nil
  then show ?case by simp
next
  case (Cons y ys)
  show ?case
    by (simp add: fold_count_row[where P="\<lambda>tx. P (y, tx)" and T="\<lambda>tx. T (y, tx)"] Cons.IH length_filter_Pair comp_def)
qed

lemma overlap_counts_eq:
  "overlap_counts pageEdges pageWidth x y template =
     (tp_count pageEdges pageWidth x y template,
      fp_count pageEdges pageWidth x y template,
      fn_count pageEdges pageWidth x y template)"
  unfolding overlap_counts_def tp_count_def fp_count_def fn_count_def window_cells_def
  using fold_count_window[where P="page_edge pageEdges pageWidth x y" and T="template_edge template"
      and xs="[0..<t_width template]" and ys="[0..<t_height template]" and a=0 and b=0 and c=0]
  by (simp add: page_edge_def template_edge_def)

lemma scoreTemplateAt_counts:
  "scoreTemplateAt pageEdges pageWidth x y template =
     (let tp = tp_count pageEdges pageWidth x y template;
          fp = fp_count pageEdges pageWidth x y template;
          fn = fn_count pageEdges pageWidth x y template
      in if tp = 0 then Fin 0 else Fin (real tp / (real tp + 0.65 * real fp + 1.25 * real fn)))"
proof -
  let ?tp = "tp_count pageEdges pageWidth x y template"
  let ?fp = "fp_count pageEdges pageWidth x y template"
  let ?fn = "fn_count pageEdges pageWidth x y template"
  have nn: "0 \<le> 0.65 * real ?fp + 1.25 * real ?fn" by simp
  show ?thesis
  proof (cases "?tp = 0")
    case True
    then show ?thesis by (simp add: scoreTemplateAt_def overlap_counts_eq Let_def)
  next
    case False
    then have "0 < real ?tp + 0.65 * real ?fp + 1.25 * real ?fn"
      using nn by (simp add: add_pos_nonneg)
    then show ?thesis using False by (simp add: scoreTemplateAt_def overlap_counts_eq Let_def)
  qed
qed

lemma scoreTemplateAt_range:
  "\<exists>r. scoreTemplateAt pageEdges pageWidth x y template = Fin r \<and> 0 \<le> r \<and> r \<le> 1"
proof -
  let ?tp = "tp_count pageEdges pageWidth x y template"
  let ?fp = "fp_count pageEdges pageWidth x y template"
  let ?fn = "fn_count pageEdges pageWidth x y template"
  show ?thesis
  proof (cases "?tp = 0")
    case True
    then show ?thesis by (simp add: scoreTemplateAt_counts)
  next
    case False
    have "real ?tp \<le> real ?tp + 0.65 * real ?fp + 1.25 * real ?fn" by simp
    moreover have "0 < real ?tp + 0.65 * real ?fp + 1.25 * real ?fn"
      using False by (simp add: add_pos_nonneg)
    ultimately have "real ?tp / (real ?tp + 0.65 * real ?fp + 1.25 * real ?fn) \<le> 1"
      by (simp add: divide_le_eq)
    moreover have "0 \<le> real ?tp / (real ?tp + 0.65 * real ?fp + 1.25 * real ?fn)"
      by (intro divide_nonneg_nonneg) simp_all
    ultimately show ?thesis using False by (simp add: scoreTemplateAt_counts Let_def)
  qed
qed

lemma scoreTemplateAt_one_iff:
  "scoreTemplateAt pageEdges pageWidth x y template = Fin 1 \<longleftrightarrow>
     0 < tp_count pageEdges pageWidth x y template \<and>
     fp_count pageEdges pageWidth x y template = 0 \<and>
     fn_count pageEdges pageWidth x y template = 0"
proof -
  let ?tp = "tp_count pageEdges pageWidth x y template"
  let ?fp = "fp_count pageEdges pageWidth x y template"
  let ?fn = "fn_count pageEdges pageWidth x y template"
  show ?thesis
  proof (cases "?tp = 0")
    case True
    then show ?thesis by (simp add: scoreTemplateAt_counts)
  next
    case False
    have pos: "0 < real ?tp + 0.65 * real ?fp + 1.25 * real ?fn"
      using False by (simp add: add_pos_nonneg)
    have "real ?tp / (real ?tp + 0.65 * real ?fp + 1.25 * real ?fn) = 1 \<longleftrightarrow>
          0.65 * real ?fp + 1.25 * real ?fn = 0"
      using pos by (simp add: divide_eq_eq)
    also have "\<dots> \<longleftrightarrow> ?fp = 0 \<and> ?fn = 0"
    proof
      assume e: "0.65 * real ?fp + 1.25 * real ?fn = 0"
      have "0 \<le> 0.65 * real ?fp" "0 \<le> 1.25 * real ?fn" by simp_all
      with e have "0.65 * real ?fp = 0" "1.25 * real ?fn = 0" by linarith+
      then show "?fp = 0 \<and> ?fn = 0" by simp
    qed simp
    finally show ?thesis using False by (simp add: scoreTemplateAt_counts Let_def)
  qed
qed

lemma embed_template_nth:
  assumes "u < W" "v < H"
  shows "embed_template W H T px py ! (v * W + u) =
     (if px \<le> u \<and> u < px + t_width T \<and> py \<le> v \<and> v < py + t_height T
      then t_edges T ! ((v - py) * t_width T + (u - px)) else 0)"
proof -
  have "v * W + u < (v + 1) * W" using assms(1) by simp
  also have "\<dots> \<le> H * W" using assms(2) by (intro mult_right_mono) simp_all
  finally have lt: "v * W + u < W * H" by (simp add: mult.commute)
  have m: "(v * W + u) mod W = u" "(v * W + u) div W = v" using assms(1) by simp_all
  show ?thesis
    unfolding embed_template_def using lt assms by (simp add: Let_def)
qed

lemma length_embed_template [simp]: "length (embed_template W H T px py) = W * H"
  by (simp add: embed_template_def)

lemma truthy_at_int: "truthy_at a (int i) \<longleftrightarrow> i < length a \<and> a ! i \<noteq> 0"
  by (simp add: truthy_at_def)

lemma template_edge_nth:
  assumes "length (t_edges T) = t_width T * t_height T" "ty < t_height T" "tx < t_width T"
  shows "template_edge T (ty, tx) \<longleftrightarrow> t_edges T ! (ty * t_width T + tx) \<noteq> 0"
proof -
  have "ty * t_width T + tx < (ty + 1) * t_width T" using assms(3) by simp
  also have "\<dots> \<le> t_height T * t_width T" using assms(2) by (intro mult_right_mono) simp_all
  finally have "ty * t_width T + tx < length (t_edges T)" using assms(1) by (simp add: mult.commute)
  then show ?thesis unfolding template_edge_def fst_conv snd_conv truthy_at_int by simp
qed

lemma page_edge_embed:
  assumes len: "length (t_edges T) = t_width T * t_height T"
    and fit: "x + t_width T \<le> W" "y + t_height T \<le> H"
    and cell: "ty < t_height T" "tx < t_width T"
  shows "page_edge (embed_template W H T px py) (int W) (int x) (int y) (ty, tx) \<longleftrightarrow>
     px \<le> x + tx \<and> x + tx < px + t_width T \<and> py \<le> y + ty \<and> y + ty < py + t_height T \<and>
     template_edge T (y + ty - py, x + tx - px)"
proof -
  have u: "x + tx < W" and v: "y + ty < H" using fit cell by simp_all
  have idx: "(int y + int ty) * int W + int x + int tx = int ((y + ty) * W + (x + tx))"
    by (simp add: algebra_simps)
  have "(y + ty) * W + (x + tx) < (y + ty + 1) * W" using u by simp
  also have "\<dots> \<le> H * W" using v by (intro mult_right_mono) simp_all
  finally have lt: "(y + ty) * W + (x + tx) < W * H" by (simp add: mult.commute)
  have "page_edge (embed_template W H T px py) (int W) (int x) (int y) (ty, tx) \<longleftrightarrow>
        embed_template W H T px py ! ((y + ty) * W + (x + tx)) \<noteq> 0"
    unfolding page_edge_def fst_conv snd_conv idx truthy_at_int using lt by simp
  also have "\<dots> \<longleftrightarrow> px \<le> x + tx \<and> x + tx < px + t_width T \<and> py \<le> y + ty \<and> y + ty < py + t_height T \<and>
     t_edges T ! ((y + ty - py) * t_width T + (x + tx - px)) \<noteq> 0"
    unfolding embed_template_nth[OF u v] by (auto simp only: split: if_splits)
  also have "\<dots> \<longleftrightarrow> px \<le> x + tx \<and> x + tx < px + t_width T \<and> py \<le> y + ty \<and> y + ty < py + t_height T \<and>
     template_edge T (y + ty - py, x + tx - px)"
  proof -
    have "template_edge T (y + ty - py, x + tx - px) \<longleftrightarrow>
          t_edges T ! ((y + ty - py) * t_width T + (x + tx - px)) \<noteq> 0"
      if "px \<le> x + tx \<and> x + tx < px + t_width T \<and> py \<le> y + ty \<and> y + ty < py + t_height T"
    proof -
      from that have "y + ty - py < t_height T" "x + tx - px < t_width T" by auto
      from template_edge_nth[OF len this] show ?thesis .
    qed
    then show ?thesis by blast
  qed
  finally show ?thesis .
qed

lemma page_edge_embed_home:
  assumes len: "length (t_edges T) = t_width T * t_height T"
    and fit: "px + t_width T \<le> W" "py + t_height T \<le> H"
    and cell: "c \<in> set (window_cells T)"
  shows "page_edge (embed_template W H T px py) (int W) (int px) (int py) c \<longleftrightarrow> template_edge T c"
proof -
  obtain ty tx where c: "c = (ty, tx)" by (cases c)
  with cell have "ty < t_height T" "tx < t_width T" by (auto simp: window_cells_def)
  from page_edge_embed[OF len fit this, of px py] this show ?thesis by (simp add: c)
qed

lemma filter_False_length: "(\<And>x. x \<in> set xs \<Longrightarrow> \<not> P x) \<Longrightarrow> length (filter P xs) = 0"
  by (induction xs) auto

lemma template_ok_edge:
  assumes "template_ok T"
  shows "\<exists>c \<in> set (window_cells T). template_edge T c"
proof -
  from assms obtain i where i: "i < length (t_edges T)" "t_edges T ! i \<noteq> 0"
    by (auto simp: template_ok_def list_ex_iff in_set_conv_nth)
  from assms have len: "length (t_edges T) = t_width T * t_height T" by (simp add: template_ok_def)
  from i len have w: "0 < t_width T" by (cases "t_width T = 0") auto
  have ty: "i div t_width T < t_height T" using i(1) len w
    by (simp add: less_mult_imp_div_less mult.commute)
  have tx: "i mod t_width T < t_width T" using w by simp
  have "template_edge T (i div t_width T, i mod t_width T)"
    using template_edge_nth[OF len ty tx] i(2) by simp
  moreover have "(i div t_width T, i mod t_width T) \<in> set (window_cells T)"
    using ty tx by (simp add: window_cells_def)
  ultimately show ?thesis by blast
qed

lemma score_at_home:
  assumes ok: "template_ok T"
    and fit: "px + t_width T \<le> W" "py + t_height T \<le> H"
  shows "scoreTemplateAt (embed_template W H T px py) (int W) (int px) (int py) T = Fin 1"
proof -
  from ok have len: "length (t_edges T) = t_width T * t_height T" by (simp add: template_ok_def)
  note h = page_edge_embed_home[OF len fit]
  have fp: "fp_count (embed_template W H T px py) (int W) (int px) (int py) T = 0"
    unfolding fp_count_def by (rule filter_False_length) (simp add: h)
  have fn: "fn_count (embed_template W H T px py) (int W) (int px) (int py) T = 0"
    unfolding fn_count_def by (rule filter_False_length) (simp add: h)
  from template_ok_edge[OF ok] obtain c where c: "c \<in> set (window_cells T)" "template_edge T c"
    by blast
  then have "c \<in> set (filter (\<lambda>c. page_edge (embed_template W H T px py) (int W) (int px) (int py) c
           \<and> template_edge T c) (window_cells T))"
    by (simp add: h)
  then have tp: "0 < tp_count (embed_template W H T px py) (int W) (int px) (int py) T"
    unfolding tp_count_def by (metis length_pos_if_in_set)
  show ?thesis using fp fn tp by (simp add: scoreTemplateAt_one_iff)
qed

lemma fn_zero_unique:
  assumes ok: "template_ok T"
    and fit: "x + t_width T \<le> W" "y + t_height T \<le> H"
    and fn: "fn_count (embed_template W H T px py) (int W) (int x) (int y) T = 0"
  shows "x = px \<and> y = py"
proof -
  from ok have len: "length (t_edges T) = t_width T * t_height T" by (simp add: template_ok_def)
  define E where "E = {c \<in> set (window_cells T). template_edge T c}"
  define g where "g = (\<lambda>c :: nat \<times> nat. (y + fst c - py, x + snd c - px))"
  have finE: "finite E" by (simp add: E_def)
  have neE: "E \<noteq> {}" using template_ok_edge[OF ok] by (auto simp: E_def)
  have all: "page_edge (embed_template W H T px py) (int W) (int x) (int y) c" if "c \<in> E" for c
  proof (rule ccontr)
    assume "\<not> page_edge (embed_template W H T px py) (int W) (int x) (int y) c"
    with that have "c \<in> set (filter (\<lambda>c. \<not> page_edge (embed_template W H T px py) (int W) (int x) (int y) c
           \<and> template_edge T c) (window_cells T))"
      by (simp add: E_def)
    then have "0 < fn_count (embed_template W H T px py) (int W) (int x) (int y) T"
      unfolding fn_count_def by (metis length_pos_if_in_set)
    with fn show False by simp
  qed
  have shift: "px \<le> x + snd c \<and> x + snd c < px + t_width T \<and> py \<le> y + fst c \<and>
      y + fst c < py + t_height T \<and> template_edge T (g c)" if "c \<in> E" for c
  proof -
    obtain ty tx where c: "c = (ty, tx)" by (cases c)
    from that have "ty < t_height T" "tx < t_width T" by (auto simp: E_def c window_cells_def)
    from page_edge_embed[OF len fit this, of px py] all[OF that] show ?thesis
      by (simp add: c g_def)
  qed
  have sub: "g ` E \<subseteq> E"
  proof
    fix d assume "d \<in> g ` E"
    then obtain c where c: "c \<in> E" "d = g c" by blast
    from shift[OF c(1)] have "fst (g c) < t_height T" "snd (g c) < t_width T" "template_edge T (g c)"
      by (auto simp: g_def)
    then show "d \<in> E" by (cases "g c") (auto simp: E_def c(2) window_cells_def)
  qed
  have inj: "inj_on g E"
  proof (rule inj_onI)
    fix c d assume "c \<in> E" "d \<in> E" "g c = g d"
    with shift[of c] shift[of d] show "c = d" by (auto simp: g_def prod_eq_iff)
  qed
  have "card (g ` E) = card E" using inj by (rule card_image)
  with sub finE have img: "g ` E = E" by (simp add: card_subset_eq)
  have cardE: "0 < card E" using finE neE by (simp add: card_gt_0_iff)
  have "sum fst (g ` E) = sum (fst \<circ> g) E" using inj by (rule sum.reindex)
  then have s1: "sum (\<lambda>c. fst (g c)) E = sum fst E" by (simp add: img comp_def)
  have "sum (\<lambda>c. fst (g c) + py) E = sum (\<lambda>c. y + fst c) E"
    by (rule sum.cong) (use shift in \<open>auto simp: g_def\<close>)
  then have "sum fst E + card E * py = card E * y + sum fst E"
    by (simp add: sum.distrib s1)
  then have yy: "y = py" using cardE by simp
  have "sum snd (g ` E) = sum (snd \<circ> g) E" using inj by (rule sum.reindex)
  then have s2: "sum (\<lambda>c. snd (g c)) E = sum snd E" by (simp add: img comp_def)
  have "sum (\<lambda>c. snd (g c) + px) E = sum (\<lambda>c. x + snd c) E"
    by (rule sum.cong) (use shift in \<open>auto simp: g_def\<close>)
  then have "sum snd E + card E * px = card E * x + sum snd E"
    by (simp add: sum.distrib s2)
  then have "x = px" using cardE by simp
  with yy show ?thesis by simp
qed

lemma stride3_set: "set (stride3 a b) = {v. a \<le> v \<and> v \<le> b \<and> (v - a) mod 3 = 0}"
proof (induction a b rule: stride3.induct)
  case (1 a b)
  show ?case
  proof (cases "a \<le> b")
    case True
    have "{v. a \<le> v \<and> v \<le> b \<and> (v - a) mod 3 = 0} =
          insert a {v. a + 3 \<le> v \<and> v \<le> b \<and> (v - (a + 3)) mod 3 = 0}"
      using True by (auto; presburger)
    then show ?thesis using True "1.IH" by (subst stride3.simps) simp
  next
    case False
    then show ?thesis by (subst stride3.simps) auto
  qed
qed

lemma fold_product:
  "fold (\<lambda>y b. fold (\<lambda>x b. f y x b) xs b) ys b = fold (\<lambda>p b. f (fst p) (snd p) b) (List.product ys xs) b"
proof (induction ys arbitrary: b)
  case Nil
  then show ?case by simp
next
  case (Cons y ys)
  have "fold (\<lambda>p b. f (fst p) (snd p) b) (map (Pair y) xs) b = fold (\<lambda>x b. f y x b) xs b" for b
    by (simp add: fold_map comp_def)
  then show ?case by (simp add: Cons.IH)
qed

lemma try_position_keep:
  assumes "score b = Fin 1"
  shows "try_position pageEdges pageWidth T y x b = b"
proof -
  obtain r where "scoreTemplateAt pageEdges pageWidth x y T = Fin r" "r \<le> 1"
    using scoreTemplateAt_range by blast
  then show ?thesis using assms by (simp add: try_position_def js_gt_def)
qed

lemma fold_try_position_keep:
  assumes "score b = Fin 1"
  shows "fold (\<lambda>p b. try_position pageEdges pageWidth T (fst p) (snd p) b) ps b = b"
  using assms by (induction ps) (simp_all add: try_position_keep)

lemma scan_zone_keep:
  assumes "score b = Fin 1"
  shows "scan_zone pageEdges pageWidth T z b = b"
  using assms by (simp add: scan_zone_def Let_def fold_product fold_try_position_keep)

lemma fold_scan_zone_keep:
  assumes "score b = Fin 1"
  shows "fold (\<lambda>template b. fold (\<lambda>z b. scan_zone pageEdges pageWidth template z b) zones b) ts b = b"
proof -
  have "fold (\<lambda>z b. scan_zone pageEdges pageWidth T z b) zs b = b" for T zs
    using assms by (induction zs) (simp_all add: scan_zone_keep)
  then show ?thesis by (induction ts) simp_all
qed

lemma fold_try_position_below:
  assumes "\<forall>p \<in> set ps. scoreTemplateAt pageEdges pageWidth (snd p) (fst p) T \<noteq> Fin 1"
    and "score b = Fin r" "r < 1"
  shows "\<exists>r'. score (fold (\<lambda>p b. try_position pageEdges pageWidth T (fst p) (snd p) b) ps b) = Fin r' \<and> r' < 1"
  using assms
proof (induction ps arbitrary: b r)
  case Nil
  then show ?case by simp
next
  case (Cons p ps)
  obtain q where q: "scoreTemplateAt pageEdges pageWidth (snd p) (fst p) T = Fin q" "q \<le> 1"
    using scoreTemplateAt_range by blast
  with Cons.prems(1) have "q < 1" by (cases "q = 1") auto
  then have "\<exists>r'. score (try_position pageEdges pageWidth T (fst p) (snd p) b) = Fin r' \<and> r' < 1"
    using q Cons.prems(2,3) by (simp add: try_position_def Let_def)
  then obtain r' where "score (try_position pageEdges pageWidth T (fst p) (snd p) b) = Fin r'" "r' < 1"
    by blast
  from Cons.IH[OF _ this] Cons.prems(1) show ?case by simp
qed

lemma fold_try_position_hit:
  assumes mem: "(y, x) \<in> set ps"
    and one: "scoreTemplateAt pageEdges pageWidth x y T = Fin 1"
    and others: "\<forall>p \<in> set ps. p \<noteq> (y, x) \<longrightarrow> scoreTemplateAt pageEdges pageWidth (snd p) (fst p) T \<noteq> Fin 1"
    and b: "score b = Fin r" "r < 1"
  shows "fold (\<lambda>p b. try_position pageEdges pageWidth T (fst p) (snd p) b) ps b =
           \<lparr> score = Fin 1, bboxPx = Some (int_box x y (t_width T) (t_height T)),
             matchedReference = Some (JStr (refName T)) \<rparr>"
proof -
  from split_list_first[OF mem] obtain ys zs where
    ps: "ps = ys @ (y, x) # zs" and nin: "(y, x) \<notin> set ys" by blast
  have "\<forall>p \<in> set ys. scoreTemplateAt pageEdges pageWidth (snd p) (fst p) T \<noteq> Fin 1"
    using others nin by (auto simp: ps)
  from fold_try_position_below[OF this b] obtain r' where
    r': "score (fold (\<lambda>p b. try_position pageEdges pageWidth T (fst p) (snd p) b) ys b) = Fin r'" "r' < 1"
    by blast
  let ?b1 = "fold (\<lambda>p b. try_position pageEdges pageWidth T (fst p) (snd p) b) ys b"
  let ?t = "\<lparr> score = Fin 1, bboxPx = Some (int_box x y (t_width T) (t_height T)),
             matchedReference = Some (JStr (refName T)) \<rparr>"
  have hit: "try_position pageEdges pageWidth T y x ?b1 = ?t"
    using one r' by (simp add: try_position_def js_gt_def)
  have "fold (\<lambda>p b. try_position pageEdges pageWidth T (fst p) (snd p) b) zs ?t = ?t"
    by (rule fold_try_position_keep) simp
  then show ?thesis by (simp add: ps hit)
qed

lemma try_position_le_one:
  assumes "score b = Fin r" "r \<le> 1"
  shows "\<exists>r'. score (try_position pageEdges pageWidth T y x b) = Fin r' \<and> r' \<le> 1"
proof -
  obtain q where "scoreTemplateAt pageEdges pageWidth x y T = Fin q" "q \<le> 1"
    using scoreTemplateAt_range by blast
  then show ?thesis using assms by (simp add: try_position_def Let_def)
qed

lemma fold_try_position_le_one:
  assumes "score b = Fin r" "r \<le> 1"
  shows "\<exists>r'. score (fold (\<lambda>p b. try_position pageEdges pageWidth T (fst p) (snd p) b) ps b) = Fin r' \<and> r' \<le> 1"
  using assms
proof (induction ps arbitrary: b r)
  case Nil
  then show ?case by simp
next
  case (Cons p ps)
  from try_position_le_one[OF Cons.prems] obtain r' where
    "score (try_position pageEdges pageWidth T (fst p) (snd p) b) = Fin r'" "r' \<le> 1"
    by blast
  from Cons.IH[OF this] show ?case by simp
qed

lemma scan_zone_le_one:
  assumes "score b = Fin r" "r \<le> 1"
  shows "\<exists>r'. score (scan_zone pageEdges pageWidth T z b) = Fin r' \<and> r' \<le> 1"
  using assms fold_try_position_le_one[OF assms]
  by (simp add: scan_zone_def Let_def fold_product)

lemma fold_zones_le_one:
  assumes "score b = Fin r" "r \<le> 1"
  shows "\<exists>r'. score (fold (\<lambda>z b. scan_zone pageEdges pageWidth T z b) zs b) = Fin r' \<and> r' \<le> 1"
  using assms
proof (induction zs arbitrary: b r)
  case Nil
  then show ?case by simp
next
  case (Cons z zs)
  from scan_zone_le_one[OF Cons.prems] obtain r' where
    "score (scan_zone pageEdges pageWidth T z b) = Fin r'" "r' \<le> 1"
    by blast
  from Cons.IH[OF this] show ?case by simp
qed

lemma fold_templates_le_one:
  assumes "score b = Fin r" "r \<le> 1"
  shows "\<exists>r'. score (fold (\<lambda>template b. fold (\<lambda>z b. scan_zone pageEdges pageWidth template z b) zones b)
                        ts b) = Fin r' \<and> r' \<le> 1"
  using assms
proof (induction ts arbitrary: b r)
  case Nil
  then show ?case by simp
next
  case (Cons T ts)
  from fold_zones_le_one[OF Cons.prems] obtain r' where
    "score (fold (\<lambda>z b. scan_zone pageEdges pageWidth T z b) zones b) = Fin r'" "r' \<le> 1"
    by blast
  from Cons.IH[OF this] show ?case by simp
qed

lemma scan_zone_embedded:
  assumes ok: "template_ok T"
    and zone_in_page: "0 \<le> zone_x0 z" "0 \<le> zone_y0 z" "zone_x1 z \<le> int W" "zone_y1 z \<le> int H"
    and inside: "zone_x0 z \<le> int px" "int px + int (t_width T) \<le> zone_x1 z"
                "zone_y0 z \<le> int py" "int py + int (t_height T) \<le> zone_y1 z"
    and grid: "(int px - zone_x0 z) mod 3 = 0" "(int py - zone_y0 z) mod 3 = 0"
    and strict: "zone_x0 z < zone_x1 z - int (t_width T)" "zone_y0 z < zone_y1 z - int (t_height T)"
    and b: "score b = Fin r" "r < 1"
  shows "scan_zone (embed_template W H T px py) (int W) T z b =
           \<lparr> score = Fin 1, bboxPx = Some (int_box (int px) (int py) (t_width T) (t_height T)),
             matchedReference = Some (JStr (refName T)) \<rparr>"
proof -
  let ?P = "embed_template W H T px py"
  let ?maxX = "zone_x1 z - int (t_width T)"
  let ?maxY = "zone_y1 z - int (t_height T)"
  let ?ps = "List.product (stride3 (zone_y0 z) ?maxY) (stride3 (zone_x0 z) ?maxX)"
  have fit: "px + t_width T \<le> W" "py + t_height T \<le> H"
    using inside zone_in_page by linarith+
  have mem: "(int py, int px) \<in> set ?ps"
    using inside grid by (simp add: stride3_set)
  have one: "scoreTemplateAt ?P (int W) (int px) (int py) T = Fin 1"
    by (rule score_at_home[OF ok fit])
  have others: "\<forall>p \<in> set ?ps. p \<noteq> (int py, int px) \<longrightarrow> scoreTemplateAt ?P (int W) (snd p) (fst p) T \<noteq> Fin 1"
  proof (intro ballI impI notI)
    fix p assume p: "p \<in> set ?ps" "p \<noteq> (int py, int px)"
      and s: "scoreTemplateAt ?P (int W) (snd p) (fst p) T = Fin 1"
    obtain y x where yx: "p = (y, x)" by (cases p)
    from p(1) have r: "zone_y0 z \<le> y" "y \<le> ?maxY" "zone_x0 z \<le> x" "x \<le> ?maxX"
      by (simp_all add: yx stride3_set)
    with zone_in_page have nn: "0 \<le> x" "0 \<le> y" by linarith+
    have f: "nat x + t_width T \<le> W" "nat y + t_height T \<le> H"
      using r zone_in_page nn by linarith+
    from s have "fn_count ?P (int W) (int (nat x)) (int (nat y)) T = 0"
      using nn by (simp add: yx scoreTemplateAt_one_iff)
    from fn_zero_unique[OF ok f this] nn have "x = int px" "y = int py" by auto
    with p(2) show False by (simp add: yx)
  qed
  have "scan_zone ?P (int W) T z b = fold (\<lambda>p b. try_position ?P (int W) T (fst p) (snd p) b) ?ps b"
    using strict by (simp add: scan_zone_def Let_def fold_product)
  also have "\<dots> = \<lparr> score = Fin 1, bboxPx = Some (int_box (int px) (int py) (t_width T) (t_height T)),
             matchedReference = Some (JStr (refName T)) \<rparr>"
    by (rule fold_try_position_hit[OF mem one others b])
  finally show ?thesis .
qed

lemma detect_embedded:
  assumes ok: "template_ok T"
    and z: "z = (case searchZone of Some given \<Rightarrow> given | None \<Rightarrow> default_zone W H)"
    and zone_in_page: "0 \<le> zone_x0 z" "0 \<le> zone_y0 z" "zone_x1 z \<le> int W" "zone_y1 z \<le> int H"
    and inside: "zone_x0 z \<le> int px" "int px + int (t_width T) \<le> zone_x1 z"
                "zone_y0 z \<le> int py" "int py + int (t_height T) \<le> zone_y1 z"
    and grid: "(int px - zone_x0 z) mod 3 = 0" "(int py - zone_y0 z) mod 3 = 0"
    and strict: "zone_x0 z < zone_x1 z - int (t_width T)" "zone_y0 z < zone_y1 z - int (t_height T)"
  shows "detectLogoByTemplateMatch (embed_template W H T px py) W H (pre @ T # rest) searchZone =
           (if score (detectLogoByTemplateMatch (embed_template W H T px py) W H pre searchZone) = Fin 1
            then detectLogoByTemplateMatch (embed_template W H T px py) W H pre searchZone
            else \<lparr> score = Fin 1, bboxPx = Some (int_box (int px) (int py) (t_width T) (t_height T)),
                   matchedReference = Some (JStr (refName T)) \<rparr>)"
proof -
  let ?P = "embed_template W H T px py"
  let ?t = "\<lparr> score = Fin 1, bboxPx = Some (int_box (int px) (int py) (t_width T) (t_height T)),
             matchedReference = Some (JStr (refName T)) \<rparr>"
  let ?b0 = "\<lparr> score = Fin 0, bboxPx = None, matchedReference = None \<rparr>"
  let ?f = "\<lambda>template b. scan_zone ?P (int W) template z b"
  have zones: "(case searchZone of Some given \<Rightarrow> [given] | None \<Rightarrow> [default_zone W H]) = [z]"
    using z by (cases searchZone) simp_all
  have d: "detectLogoByTemplateMatch ?P W H ts searchZone = fold ?f ts ?b0" for ts
    by (simp add: detectLogoByTemplateMatch_def zones)
  obtain r where r: "score (fold ?f pre ?b0) = Fin r" "r \<le> 1"
    using fold_templates_le_one[of ?b0 0 ?P "int W" "[z]" pre] by auto
  have keep: "fold ?f rest b = b" if "score b = Fin 1" for b
    using fold_scan_zone_keep[OF that, of ?P "int W" "[z]" rest] by simp
  have split: "fold ?f (pre @ T # rest) ?b0 = fold ?f rest (?f T (fold ?f pre ?b0))"
    by simp
  show ?thesis
  proof (cases "r = 1")
    case True
    then have one: "score (fold ?f pre ?b0) = Fin 1" using r by simp
    then have "?f T (fold ?f pre ?b0) = fold ?f pre ?b0" by (rule scan_zone_keep)
    then have "fold ?f (pre @ T # rest) ?b0 = fold ?f pre ?b0"
      unfolding split using keep[OF one] by simp
    then show ?thesis unfolding d using one by simp
  next
    case False
    with r have lt: "r < 1" by simp
    have "?f T (fold ?f pre ?b0) = ?t"
      by (rule scan_zone_embedded[OF ok zone_in_page inside grid strict r(1) lt])
    moreover have "fold ?f rest ?t = ?t" by (rule keep) simp
    ultimately have "fold ?f (pre @ T # rest) ?b0 = ?t"
      unfolding split by simp
    then show ?thesis unfolding d using r False by simp
  qed
qed

lemma embed_at_origin:
  "embed_template 6 6 example_template 0 0 =
      [1,1,0,0,0,0, 0,0,0,0,0,0, 0,0,0,0,0,0, 0,0,0,0,0,0, 0,0,0,0,0,0, 0,0,0,0,0,0]"
  by (simp add: embed_template_def example_template_def upt_rec)

text \<open>
  C2, as the code has it, at three inputs on a 6 by 6 page with the template
  \<open>example_template\<close> (2 by 2, edges in its top row).

  The window moves in steps of 3 pixels from the corner of the zone, so a placement that
  is not on that grid is never scored: with the template embedded at \<open>(1, 0)\<close> and the
  whole page as zone, the scan visits \<open>x = 0\<close> and \<open>x = 3\<close> only; the best window is the one
  at \<open>(0, 0)\<close>, with one edge matched and one missed, and the result is the score
  \<open>1 / 2.25\<close> with the box at \<open>(0, 0)\<close>, not 1.0 with the box at \<open>(1, 0)\<close>.

  A zone is skipped when \<open>maxX <= zone.x0\<close> or \<open>maxY <= zone.y0\<close>, so also when it is
  exactly as wide or as high as the template, although the loops \<open>y <= maxY\<close> and
  \<open>x <= maxX\<close> would visit that one position: with the template embedded at \<open>(0, 0)\<close> and a
  zone over the top two rows, nothing is scored and the result is the score 0 without a
  box.

  The result changes only on a strictly higher score, so a template earlier in the list
  that already scores 1.0 keeps the result: with the one-row template \<open>row_template\<close>
  before \<open>example_template\<close> in the list and the latter embedded at \<open>(0, 0)\<close>, the result is
  the score 1.0 with the box and the name of \<open>row_template\<close>.
\<close>

theorem detectLogoByTemplateMatch_counterexamples:
  "detectLogoByTemplateMatch (embed_template 6 6 example_template 1 0) 6 6 [example_template]
       (Some example_zone) =
    \<lparr> score = Fin (1 / 2.25), bboxPx = Some (int_box 0 0 2 2),
      matchedReference = Some (JStr ''logo.png'') \<rparr> \<and>
   detectLogoByTemplateMatch (embed_template 6 6 example_template 0 0) 6 6 [example_template]
       (Some exact_fit_zone) =
    \<lparr> score = Fin 0, bboxPx = None, matchedReference = None \<rparr> \<and>
   detectLogoByTemplateMatch (embed_template 6 6 example_template 0 0) 6 6
       [row_template, example_template] (Some example_zone) =
    \<lparr> score = Fin 1, bboxPx = Some (int_box 0 0 2 1), matchedReference = Some (JStr ''row.png'') \<rparr>"
proof -
  have s: "stride3 0 4 = [0, 3]" "stride3 0 5 = [0, 3]"
    by (simp_all add: stride3.simps)
  have e: "embed_template 6 6 example_template 1 0 =
      [0,1,1,0,0,0, 0,0,0,0,0,0, 0,0,0,0,0,0, 0,0,0,0,0,0, 0,0,0,0,0,0, 0,0,0,0,0,0]"
    by (simp add: embed_template_def example_template_def upt_rec)
  have 1: "detectLogoByTemplateMatch (embed_template 6 6 example_template 1 0) 6 6 [example_template]
       (Some example_zone) =
    \<lparr> score = Fin (1 / 2.25), bboxPx = Some (int_box 0 0 2 2),
      matchedReference = Some (JStr ''logo.png'') \<rparr>"
    unfolding e
    by (simp add: detectLogoByTemplateMatch_def scan_zone_def example_zone_def example_template_def
        s try_position_def scoreTemplateAt_def overlap_counts_def count_step_def truthy_at_def
        js_gt_def Let_def upt_rec)
  have 2: "detectLogoByTemplateMatch (embed_template 6 6 example_template 0 0) 6 6 [example_template]
       (Some exact_fit_zone) =
    \<lparr> score = Fin 0, bboxPx = None, matchedReference = None \<rparr>"
    by (simp add: detectLogoByTemplateMatch_def scan_zone_def exact_fit_zone_def example_template_def)
  have 3: "detectLogoByTemplateMatch (embed_template 6 6 example_template 0 0) 6 6
       [row_template, example_template] (Some example_zone) =
    \<lparr> score = Fin 1, bboxPx = Some (int_box 0 0 2 1), matchedReference = Some (JStr ''row.png'') \<rparr>"
    unfolding embed_at_origin
    by (simp add: detectLogoByTemplateMatch_def scan_zone_def example_zone_def example_template_def
        row_template_def s try_position_def scoreTemplateAt_def overlap_counts_def count_step_def
        truthy_at_def js_gt_def Let_def upt_rec)
  from 1 2 3 show ?thesis by simp
qed

text \<open>
  C2 (amended): let a template with one edge-map cell per pixel and at least one edge
  pixel be anywhere in the template list, and let the search zone, the one given or the
  default one, lie inside the page and be strictly wider and strictly higher than the
  template. For every placement position inside the zone that the 3-pixel scan visits
  (\<open>x - zone.x0\<close> and \<open>y - zone.y0\<close> are multiples of 3), if the page edge map is the
  template's edge map embedded at that position into an otherwise edge-free page,
  \<open>detectLogoByTemplateMatch\<close> returns the score 1.0; the box and the name are those of the
  template at that position, unless the templates before it in the list reach the score
  1.0 on this page by themselves, and then the result is theirs. At every window
  position of any page, \<open>scoreTemplateAt\<close> is \<open>tp / (tp + 0.65*fp + 1.25*fn)\<close> over the
  numbers of window cells that are an edge of both, of the page only and of the template
  only, and 0 when \<open>tp\<close> is 0 (which covers the window without any edge).
\<close>

theorem detectLogoByTemplateMatch_embedded_template:
  assumes "template_ok T"
    and "z = (case searchZone of Some given \<Rightarrow> given | None \<Rightarrow> default_zone W H)"
    and "0 \<le> zone_x0 z" "0 \<le> zone_y0 z" "zone_x1 z \<le> int W" "zone_y1 z \<le> int H"
    and "zone_x0 z \<le> int px" "int px + int (t_width T) \<le> zone_x1 z"
        "zone_y0 z \<le> int py" "int py + int (t_height T) \<le> zone_y1 z"
    and "(int px - zone_x0 z) mod 3 = 0" "(int py - zone_y0 z) mod 3 = 0"
    and "zone_x0 z < zone_x1 z - int (t_width T)" "zone_y0 z < zone_y1 z - int (t_height T)"
  shows "score (detectLogoByTemplateMatch (embed_template W H T px py) W H (pre @ T # rest) searchZone)
           = Fin 1 \<and>
         detectLogoByTemplateMatch (embed_template W H T px py) W H (pre @ T # rest) searchZone =
           (if score (detectLogoByTemplateMatch (embed_template W H T px py) W H pre searchZone) = Fin 1
            then detectLogoByTemplateMatch (embed_template W H T px py) W H pre searchZone
            else \<lparr> score = Fin 1, bboxPx = Some (int_box (int px) (int py) (t_width T) (t_height T)),
                   matchedReference = Some (JStr (refName T)) \<rparr>) \<and>
         scoreTemplateAt pageEdges pageWidth x y template =
           (let tp = tp_count pageEdges pageWidth x y template;
                fp = fp_count pageEdges pageWidth x y template;
                fn = fn_count pageEdges pageWidth x y template
            in if tp = 0 then Fin 0
               else Fin (real tp / (real tp + 0.65 * real fp + 1.25 * real fn)))"
proof -
  note d = detect_embedded[OF assms, of pre rest]
  have "score (detectLogoByTemplateMatch (embed_template W H T px py) W H (pre @ T # rest) searchZone)
           = Fin 1"
    unfolding d by simp
  with d scoreTemplateAt_counts show ?thesis by blast
qed

theorem detectLogoByTemplateMatch_embedded_template_witness:
  "detectLogoByTemplateMatch (embed_template 6 6 example_template 3 0) 6 6 [example_template]
       (Some example_zone) =
    \<lparr> score = Fin 1, bboxPx = Some (int_box 3 0 2 2), matchedReference = Some (JStr ''logo.png'') \<rparr> \<and>
   detectLogoByTemplateMatch (embed_template 6 6 example_template 2 3) 6 6
       [other_template, example_template] None =
    \<lparr> score = Fin 1, bboxPx = Some (int_box 2 3 2 2), matchedReference = Some (JStr ''logo.png'') \<rparr>"
proof -
  have ok: "template_ok example_template"
    by (simp add: example_template_def template_ok_def)
  have a: "score (detectLogoByTemplateMatch (embed_template 6 6 example_template 3 0) 6 6 []
             (Some example_zone)) \<noteq> Fin 1"
    by (simp add: detectLogoByTemplateMatch_def)
  have e: "embed_template 6 6 example_template 2 3 =
      [0,0,0,0,0,0, 0,0,0,0,0,0, 0,0,0,0,0,0, 0,0,1,1,0,0, 0,0,0,0,0,0, 0,0,0,0,0,0]"
    by (simp add: embed_template_def example_template_def upt_rec)
  have s: "stride3 2 4 = [2]" "stride3 3 4 = [3]"
    by (simp_all add: stride3.simps)
  have b: "score (detectLogoByTemplateMatch (embed_template 6 6 example_template 2 3) 6 6
             [other_template] None) \<noteq> Fin 1"
    unfolding e
    by (simp add: detectLogoByTemplateMatch_def default_zone_def scan_zone_def other_template_def
        s try_position_def scoreTemplateAt_def overlap_counts_def count_step_def truthy_at_def
        js_gt_def Let_def upt_rec)
  have d: "t_width example_template = 2" "t_height example_template = 2"
    "refName example_template = ''logo.png''"
    by (simp_all add: example_template_def)
  note t1 = detectLogoByTemplateMatch_embedded_template[where T=example_template and z=example_zone
      and searchZone="Some example_zone" and W=6 and H=6 and px=3 and py=0 and pre="[]" and rest="[]",
      OF ok, THEN conjunct2, THEN conjunct1]
  have "detectLogoByTemplateMatch (embed_template 6 6 example_template 3 0) 6 6 ([] @ example_template # [])
       (Some example_zone) =
     (if score (detectLogoByTemplateMatch (embed_template 6 6 example_template 3 0) 6 6 []
                  (Some example_zone)) = Fin 1
      then detectLogoByTemplateMatch (embed_template 6 6 example_template 3 0) 6 6 [] (Some example_zone)
      else \<lparr> score = Fin 1,
             bboxPx = Some (int_box (int 3) (int 0) (t_width example_template) (t_height example_template)),
             matchedReference = Some (JStr (refName example_template)) \<rparr>)"
    by (rule t1) (simp_all add: example_zone_def d)
  then have 1: "detectLogoByTemplateMatch (embed_template 6 6 example_template 3 0) 6 6 [example_template]
       (Some example_zone) =
    \<lparr> score = Fin 1, bboxPx = Some (int_box 3 0 2 2), matchedReference = Some (JStr ''logo.png'') \<rparr>"
    using a by (simp add: d)
  note t2 = detectLogoByTemplateMatch_embedded_template[where T=example_template and z="default_zone 6 6"
      and searchZone=None and W=6 and H=6 and px=2 and py=3 and pre="[other_template]" and rest="[]",
      OF ok, THEN conjunct2, THEN conjunct1]
  have "detectLogoByTemplateMatch (embed_template 6 6 example_template 2 3) 6 6
          ([other_template] @ example_template # []) None =
     (if score (detectLogoByTemplateMatch (embed_template 6 6 example_template 2 3) 6 6 [other_template]
                  None) = Fin 1
      then detectLogoByTemplateMatch (embed_template 6 6 example_template 2 3) 6 6 [other_template] None
      else \<lparr> score = Fin 1,
             bboxPx = Some (int_box (int 2) (int 3) (t_width example_template) (t_height example_template)),
             matchedReference = Some (JStr (refName example_template)) \<rparr>)"
    by (rule t2) (simp_all add: default_zone_def d)
  then have 2: "detectLogoByTemplateMatch (embed_template 6 6 example_template 2 3) 6 6
       [other_template, example_template] None =
    \<lparr> score = Fin 1, bboxPx = Some (int_box 2 3 2 2), matchedReference = Some (JStr ''logo.png'') \<rparr>"
    using b by (simp add: d)
  from 1 2 show ?thesis by simp
qed


section \<open>Properties of the footer band locator\<close>

lemma extend_band_rows:
  "extend_band ratio height y s r = (y', s', r') \<Longrightarrow> y \<le> height \<Longrightarrow>
     y' \<le> height \<and> (\<forall>k. y \<le> k \<and> k < y' \<longrightarrow> 0.2 \<le> ratio k)"
proof (induction ratio height y s r rule: extend_band.induct)
  case (1 ratio height y ratioSum bandRows)
  show ?case
  proof (cases "y < height \<and> 0.2 \<le> ratio y")
    case c: True
    then have e: "extend_band ratio height (y + 1) (ratioSum + ratio y) (bandRows + 1) = (y', s', r')"
      using "1.prems"(1) by (subst (asm) extend_band.simps) simp
    from "1.IH"[OF c e] c
    have le: "y' \<le> height" and ih: "\<forall>k. y + 1 \<le> k \<and> k < y' \<longrightarrow> 0.2 \<le> ratio k" by simp_all
    have "0.2 \<le> ratio k" if "y \<le> k \<and> k < y'" for k
    proof (cases "k = y")
      case True
      with c show ?thesis by simp
    next
      case False
      with that have "y + 1 \<le> k \<and> k < y'" by simp
      with ih show ?thesis by blast
    qed
    with le show ?thesis by blast
  next
    case False
    then have "y' = y" using "1.prems"(1) by (subst (asm) extend_band.simps) auto
    then show ?thesis using "1.prems"(2) by simp
  qed
qed

lemma extend_band_full:
  "y \<le> height \<Longrightarrow> (\<forall>k. y \<le> k \<and> k < height \<longrightarrow> 0.2 \<le> ratio k) \<Longrightarrow>
     fst (extend_band ratio height y s r) = height"
proof (induction ratio height y s r rule: extend_band.induct)
  case (1 ratio height y ratioSum bandRows)
  show ?case
  proof (cases "y < height")
    case True
    with "1.prems" have c: "y < height \<and> 0.2 \<le> ratio y" by simp
    have "fst (extend_band ratio height (y + 1) (ratioSum + ratio y) (bandRows + 1)) = height"
      using "1.IH"[OF c] "1.prems" True by simp
    then show ?thesis using c by (subst extend_band.simps) simp
  next
    case False
    with "1.prems"(1) have "y = height" by simp
    then show ?thesis by (subst extend_band.simps) simp
  qed
qed

lemma scan_bands_skip:
  "y \<le> m \<Longrightarrow> m \<le> height \<Longrightarrow> (\<forall>k. y \<le> k \<and> k < m \<longrightarrow> ratio k < 0.28) \<Longrightarrow>
     scan_bands ratio height mb y best = scan_bands ratio height mb m best"
proof (induction "m - y" arbitrary: y)
  case 0
  then show ?case by simp
next
  case (Suc n)
  then have y: "y < m" "y < height" "ratio y < 0.28" by auto
  have "scan_bands ratio height mb y best = scan_bands ratio height mb (y + 1) best"
    using y by (subst scan_bands.simps) simp
  also have "\<dots> = scan_bands ratio height mb m best"
    using Suc by (intro Suc.hyps(1)) auto
  finally show ?case .
qed

lemma scan_bands_end: "scan_bands ratio height mb height best = best"
  by (subst scan_bands.simps) simp

lemma scan_bands_single:
  assumes s: "startY \<le> s" "s < height"
    and quiet: "\<forall>k. startY \<le> k \<and> k < s \<longrightarrow> ratio k < 0.28"
    and band: "\<forall>k. s \<le> k \<and> k < height \<longrightarrow> 0.28 \<le> ratio k"
    and high: "mb \<le> height - s"
  shows "\<exists>sc. scan_bands ratio height mb startY None =
            Some \<lparr> band_y0 = s, band_y1 = height - 1, band_score = sc \<rparr>"
proof -
  have a: "scan_bands ratio height mb startY None = scan_bands ratio height mb s None"
    using s quiet by (intro scan_bands_skip) auto
  have b2: "\<forall>k. s \<le> k \<and> k < height \<longrightarrow> 0.2 \<le> ratio k" using band by force
  have full: "fst (extend_band ratio height s 0 0) = height"
    using s b2 by (intro extend_band_full) auto
  obtain rs rr where e: "extend_band ratio height s 0 0 = (height, rs, rr)"
    using full by (cases "extend_band ratio height s 0 0") auto
  have rs: "\<not> ratio s < 0.28" using band s by force
  have c: "\<exists>sc. consider_band height mb s (height, rs, rr) None =
         Some \<lparr> band_y0 = s, band_y1 = height - 1, band_score = sc \<rparr>"
    using high s by (simp add: consider_band_def Let_def nat_diff_distrib) 
  have "scan_bands ratio height mb s None =
        scan_bands ratio height mb height (consider_band height mb s (height, rs, rr) None)"
    using s rs by (subst scan_bands.simps) (simp add: e)
  with c a show ?thesis by (auto simp: scan_bands_end)
qed

lemma consider_band_None:
  "consider_band height mb start (y', rs, rr) None \<noteq> None \<Longrightarrow> int mb \<le> int y' - int start"
  by (auto simp: consider_band_def Let_def split: if_splits)

lemma scan_bands_no_group:
  assumes "best = None"
    and "\<forall>a b. y \<le> a \<and> a \<le> b \<and> b < height \<and> 0.28 \<le> ratio a \<and>
            (\<forall>k. a \<le> k \<and> k \<le> b \<longrightarrow> 0.2 \<le> ratio k) \<longrightarrow> \<not> mb \<le> b + 1 - a"
  shows "scan_bands ratio height mb y best = None"
  using assms
proof (induction ratio height mb y best rule: scan_bands.induct)
  case (1 ratio height mb y best)
  show ?case
  proof (cases "y < height")
    case False
    then show ?thesis using "1.prems"(1) by (subst scan_bands.simps) simp
  next
    case lt: True
    show ?thesis
    proof (cases "ratio y < 0.28")
      case True
      have "scan_bands ratio height mb (y + 1) best = None"
        using "1.IH"(1)[OF lt True "1.prems"(1)] "1.prems"(2) by auto
      then show ?thesis using lt True by (subst scan_bands.simps) simp
    next
      case False
      obtain y' rs rr where e: "extend_band ratio height y 0 0 = (y', rs, rr)"
        by (cases "extend_band ratio height y 0 0") auto
      from extend_band_rows[OF e] lt have rows: "y' \<le> height" "\<forall>k. y \<le> k \<and> k < y' \<longrightarrow> 0.2 \<le> ratio k"
        by simp_all
      from extend_band_progress[OF e] lt False have prog: "y < y'" by auto
      have cb: "consider_band height mb y (y', rs, rr) None = None"
      proof (rule ccontr)
        assume "consider_band height mb y (y', rs, rr) None \<noteq> None"
        then have "int mb \<le> int y' - int y" by (rule consider_band_None)
        then have h: "mb \<le> (y' - 1) + 1 - y" using prog by simp
        have "y \<le> y \<and> y \<le> y' - 1 \<and> y' - 1 < height \<and> 0.28 \<le> ratio y \<and>
              (\<forall>k. y \<le> k \<and> k \<le> y' - 1 \<longrightarrow> 0.2 \<le> ratio k)"
          using prog rows False by auto
        with "1.prems"(2) h show False by blast
      qed
      have "scan_bands ratio height mb (fst (extend_band ratio height y 0 0))
               (consider_band height mb y (extend_band ratio height y 0 0) best) = None"
      proof (rule "1.IH"(2)[OF lt False])
        show "consider_band height mb y (extend_band ratio height y 0 0) best = None"
          using cb "1.prems"(1) by (simp add: e)
        show "\<forall>a b. fst (extend_band ratio height y 0 0) \<le> a \<and> a \<le> b \<and> b < height \<and> 0.28 \<le> ratio a \<and>
            (\<forall>k. a \<le> k \<and> k \<le> b \<longrightarrow> 0.2 \<le> ratio k) \<longrightarrow> \<not> mb \<le> b + 1 - a"
          using "1.prems"(2) prog by (auto simp: e)
      qed
      then show ?thesis using lt False by (subst scan_bands.simps) simp
    qed
  qed
qed

lemma not_qualifying_group_spec:
  assumes "\<not> qualifying_group_spec ratio startY height mb"
  shows "\<forall>a b. startY \<le> a \<and> a \<le> b \<and> b < height \<and> 0.28 \<le> ratio a \<and>
            (\<forall>k. a \<le> k \<and> k \<le> b \<longrightarrow> 0.2 \<le> ratio k) \<longrightarrow> \<not> mb \<le> b + 1 - a"
proof (intro allI impI notI)
  fix a b
  assume h: "startY \<le> a \<and> a \<le> b \<and> b < height \<and> 0.28 \<le> ratio a \<and>
            (\<forall>k. a \<le> k \<and> k \<le> b \<longrightarrow> 0.2 \<le> ratio k)" and m: "mb \<le> b + 1 - a"
  then have "a \<in> set [startY..<height]" "b \<in> set [a..<height]"
    "list_all (\<lambda>y. 0.2 \<le> ratio y) [a..<b + 1]"
    by (auto simp: list_all_iff)
  with h m have "qualifying_group_spec ratio startY height mb"
    unfolding qualifying_group_spec_def list_ex_iff by blast
  with assms show False by simp
qed

lemma solid_row_ratio:
  assumes "0 < width" "solid_row raw width channels y"
  shows "rowPurpleRatio raw width channels y = 1"
proof -
  from assms(2) have "filter (purple_at raw width channels y) [0..<width] = [0..<width]"
    by (simp add: solid_row_def list_all_iff)
  then show ?thesis using assms(1) by (simp add: rowPurpleRatio_def)
qed

lemma detectFooterBand_solid_band:
  assumes w: "0 < width"
    and solid: "solid_band_at_bottom raw width height channels h"
    and quiet: "quiet_rows raw width channels ((height * 45) div 100) (height - h)"
    and hmin: "max 24 ((height * 5) div 100) \<le> h"
    and hmax: "h \<le> height - (height * 45) div 100"
  shows "detectFooterBand raw width height channels =
           Some (Some \<lparr> zone_x0 = int ((width * 45) div 100), zone_y0 = int (height - h),
                        zone_x1 = int width, zone_y1 = int height \<rparr>)"
proof -
  let ?ratio = "rowPurpleRatio raw width channels"
  let ?startY = "(height * 45) div 100"
  let ?mb = "max 24 ((height * 5) div 100)"
  from solid have hh: "h \<le> height" by (simp add: solid_band_at_bottom_def)
  have hpos: "0 < h" using hmin by simp
  have s: "?startY \<le> height - h" "height - h < height" using hmax hh hpos by simp_all
  have q: "\<forall>k. ?startY \<le> k \<and> k < height - h \<longrightarrow> ?ratio k < 0.28"
  proof (intro allI impI)
    fix k assume "?startY \<le> k \<and> k < height - h"
    then have "?ratio k < 0.2" using quiet by (simp add: quiet_rows_def list_all_iff)
    then show "?ratio k < 0.28" by simp
  qed
  have b: "\<forall>k. height - h \<le> k \<and> k < height \<longrightarrow> 0.28 \<le> ?ratio k"
  proof (intro allI impI)
    fix k assume "height - h \<le> k \<and> k < height"
    then have "solid_row raw width channels k"
      using solid by (simp add: solid_band_at_bottom_def list_all_iff)
    from solid_row_ratio[OF w this] show "0.28 \<le> ?ratio k" by simp
  qed
  have m: "?mb \<le> height - (height - h)" using hmin hh by simp
  from scan_bands_single[OF s q b m] obtain sc where
    "scan_bands ?ratio height ?mb ?startY None =
       Some \<lparr> band_y0 = height - h, band_y1 = height - 1, band_score = sc \<rparr>" by blast
  then show ?thesis using w s(2) by (simp add: detectFooterBand_def Let_def)
qed

lemma detectFooterBand_no_group:
  assumes w: "0 < width"
    and "\<not> qualifying_group_spec (rowPurpleRatio raw width channels) ((height * 45) div 100) height
            (max 24 ((height * 5) div 100))"
  shows "detectFooterBand raw width height channels = Some None"
  using scan_bands_no_group[OF refl not_qualifying_group_spec[OF assms(2)]] w
  by (simp add: detectFooterBand_def Let_def)

lemma detectFooterBand_single:
  assumes w: "0 < width"
    and s: "(height * 45) div 100 \<le> s" "s < height"
    and quiet: "\<forall>k. (height * 45) div 100 \<le> k \<and> k < s \<longrightarrow> rowPurpleRatio raw width channels k < 0.28"
    and band: "\<forall>k. s \<le> k \<and> k < height \<longrightarrow> 0.28 \<le> rowPurpleRatio raw width channels k"
    and high: "max 24 ((height * 5) div 100) \<le> height - s"
  shows "detectFooterBand raw width height channels =
           Some (Some \<lparr> zone_x0 = int ((width * 45) div 100), zone_y0 = int s,
                        zone_x1 = int width, zone_y1 = int height \<rparr>)"
proof -
  from scan_bands_single[OF s quiet band high] obtain sc where
    "scan_bands (rowPurpleRatio raw width channels) height (max 24 ((height * 5) div 100))
        ((height * 45) div 100) None =
       Some \<lparr> band_y0 = s, band_y1 = height - 1, band_score = sc \<rparr>" by blast
  then show ?thesis using w s(2) by (simp add: detectFooterBand_def Let_def)
qed

lemma footer_bitmap_nth:
  "i < H * 3 \<Longrightarrow>
     footer_bitmap H h ! i = (if i div 3 < H - h then 255 else [110, 31, 93] ! (i mod 3))"
  by (simp add: footer_bitmap_def)

lemma footer_bitmap_purple:
  assumes "y < H"
  shows "purple_at (footer_bitmap H h) (Suc 0) 3 y 0 \<longleftrightarrow> H - h \<le> y"
proof -
  have i: "y * 3 < H * 3" "y * 3 + 1 < H * 3" "y * 3 + 2 < H * 3" using assms by simp_all
  have d: "(y * 3) div 3 = y" "(y * 3 + 1) div 3 = y" "(y * 3 + 2) div 3 = y" by simp_all
  have m: "(y * 3) mod 3 = 0" "(y * 3 + 1) mod 3 = 1" "(y * 3 + 2) mod 3 = 2" by presburger+
  have n: "footer_bitmap H h ! (y * 3) = (if y < H - h then 255 else 110)"
    "footer_bitmap H h ! (y * 3 + 1) = (if y < H - h then 255 else 31)"
    "footer_bitmap H h ! (y * 3 + 2) = (if y < H - h then 255 else 93)"
    unfolding footer_bitmap_nth[OF i(1)] footer_bitmap_nth[OF i(2)] footer_bitmap_nth[OF i(3)] d m
    by simp_all
  have l: "length (footer_bitmap H h) = H * 3" by (simp add: footer_bitmap_def)
  have "purple_at (footer_bitmap H h) (Suc 0) 3 y 0 \<longleftrightarrow>
        isPurplePixel (Some (footer_bitmap H h ! (y * 3))) (Some (footer_bitmap H h ! (y * 3 + 1)))
           (Some (footer_bitmap H h ! (y * 3 + 2)))"
    using i by (simp add: purple_at_def u8_get_def l nullish_or_def Let_def)
  also have "\<dots> \<longleftrightarrow> H - h \<le> y"
    unfolding n by (simp add: isPurplePixel_def)
  finally show ?thesis .
qed

lemma footer_bitmap_ratio:
  assumes "y < H"
  shows "rowPurpleRatio (footer_bitmap H h) (Suc 0) 3 y = (if H - h \<le> y then 1 else 0)"
  using footer_bitmap_purple[OF assms] by (simp add: rowPurpleRatio_def)

lemma footer_bitmap_solid: "h \<le> H \<Longrightarrow> solid_band_at_bottom (footer_bitmap H h) (Suc 0) H 3 h"
  by (simp add: solid_band_at_bottom_def solid_row_def list_all_iff footer_bitmap_purple)

lemma footer_bitmap_quiet:
  assumes "b \<le> H - h" "0 < H"
  shows "quiet_rows (footer_bitmap H h) (Suc 0) 3 a b"
proof -
  have "rowPurpleRatio (footer_bitmap H h) (Suc 0) 3 y < 0.2" if "y < b" for y
  proof -
    from that assms have "y < H" "\<not> H - h \<le> y" by simp_all
    then show ?thesis by (simp add: footer_bitmap_ratio)
  qed
  then show ?thesis by (simp add: quiet_rows_def list_all_iff)
qed

lemma footer_bitmap_white_no_group:
  "\<not> qualifying_group_spec (rowPurpleRatio (footer_bitmap H 0) (Suc 0) 3) s H mb"
  by (auto simp: qualifying_group_spec_def list_ex_iff footer_bitmap_ratio)

text \<open>
  C6, as the code has it. The scan starts at row \<open>floor(0.45 * height)\<close>, so a band that
  begins above that row is found only from that row down. In a bitmap 50 rows high whose
  bottom 30 rows are solid footer colour (the minimum band height is 24), the scan starts
  at row 22 and the band returned has \<open>y1 - y0 = 28\<close>, two rows short of \<open>h = 30\<close>.
\<close>

theorem detectFooterBand_tall_band_counterexample:
  "solid_band_at_bottom (footer_bitmap 50 30) 1 50 3 30 \<and>
   max 24 ((50 * 5) div 100) \<le> (30::nat) \<and>
   detectFooterBand (footer_bitmap 50 30) 1 50 3 =
     Some (Some \<lparr> zone_x0 = 0, zone_y0 = 22, zone_x1 = 1, zone_y1 = 50 \<rparr>)"
proof -
  have "detectFooterBand (footer_bitmap 50 30) (Suc 0) 50 3 =
     Some (Some \<lparr> zone_x0 = int ((Suc 0 * 45) div 100), zone_y0 = int 22,
                  zone_x1 = int (Suc 0), zone_y1 = int 50 \<rparr>)"
    by (rule detectFooterBand_single) (simp_all add: footer_bitmap_ratio)
  then show ?thesis using footer_bitmap_solid[of 30 50] by simp
qed

text \<open>
  C6 (amended): for a bitmap of positive width, if the bottom \<open>h\<close> rows are a solid
  footer-coloured band with \<open>minBandHeight \<le> h\<close> (\<open>minBandHeight = max(24, floor(0.05 * height))\<close>),
  the band lies within the scanned part of the page (\<open>h \<le> height - floor(0.45 * height)\<close>)
  and the scanned rows above it have a footer-colour ratio below 0.2, then
  \<open>detectFooterBand\<close> returns the band with \<open>y0 = height - h\<close> and \<open>y1 = height\<close>, so
  \<open>y1 - y0 = h\<close>; and whenever no contiguous group of rows at or below the start row, all
  of ratio at least 0.2 and the first of ratio at least 0.28, is \<open>minBandHeight\<close> rows
  high, it returns null.
\<close>

theorem detectFooterBand_solid_band_or_null:
  assumes "0 < width"
  shows "(solid_band_at_bottom raw width height channels h \<and>
          quiet_rows raw width channels ((height * 45) div 100) (height - h) \<and>
          max 24 ((height * 5) div 100) \<le> h \<and> h \<le> height - (height * 45) div 100 \<longrightarrow>
            detectFooterBand raw width height channels =
              Some (Some \<lparr> zone_x0 = int ((width * 45) div 100), zone_y0 = int (height - h),
                           zone_x1 = int width, zone_y1 = int height \<rparr>)) \<and>
         (\<not> qualifying_group_spec (rowPurpleRatio raw width channels) ((height * 45) div 100)
               height (max 24 ((height * 5) div 100)) \<longrightarrow>
            detectFooterBand raw width height channels = Some None)"
  using detectFooterBand_solid_band[OF assms] detectFooterBand_no_group[OF assms] by blast

theorem detectFooterBand_solid_band_or_null_witness:
  "detectFooterBand (footer_bitmap 60 30) 1 60 3 =
     Some (Some \<lparr> zone_x0 = 0, zone_y0 = 30, zone_x1 = 1, zone_y1 = 60 \<rparr>) \<and>
   detectFooterBand (footer_bitmap 60 0) 1 60 3 = Some None"
  using detectFooterBand_solid_band_or_null[of "Suc 0" "footer_bitmap 60 30" 60 3 30]
    detectFooterBand_solid_band_or_null[of "Suc 0" "footer_bitmap 60 0" 60 3 0]
    footer_bitmap_solid[of 30 60] footer_bitmap_quiet[of 30 60 30 27]
    footer_bitmap_white_no_group[of 60]
  by simp


section \<open>Properties of the vision probe adapter\<close>

lemma set_insert_by: "set (insert_by cmp x ys) = insert x (set ys)"
  by (induction ys) auto

lemma set_foldl_insert_by:
  "set (foldl (\<lambda>acc x. insert_by cmp x acc) acc xs) = set acc \<union> set xs"
  by (induction xs arbitrary: acc) (auto simp: set_insert_by)

lemma set_Array_sort: "set (Array_sort cmp xs) = set xs"
  by (simp add: Array_sort_def set_foldl_insert_by)

lemma Array_sort_Nil: "Array_sort cmp xs = [] \<longleftrightarrow> xs = []"
  by (metis set_Array_sort set_empty)

lemma probe_of_text_cases:
  assumes "\<not> list_ex candidate_throws (parseVisionDetections env text)"
  shows "(surviving_candidates env text = [] \<and>
      probe_of_text env text = Inr \<lparr> found = False, confidence = Fin 0, bbox = None,
                                      ai_matchedReference = None, rawText = text \<rparr>) \<or>
   (\<exists>best \<in> set (surviving_candidates env text).
      probe_of_text env text = Inr \<lparr> found = True, confidence = confidence best, bbox = bbox best,
                                      ai_matchedReference = ai_matchedReference best, rawText = text \<rparr>)"
proof (cases "surviving_candidates env text = []")
  case True
  then show ?thesis using assms by (simp add: probe_of_text_def)
next
  case False
  then obtain best rest where s: "Array_sort by_quality (surviving_candidates env text) = best # rest"
    by (cases "Array_sort by_quality (surviving_candidates env text)") (auto simp: Array_sort_Nil)
  then have "best \<in> set (surviving_candidates env text)"
    by (metis list.set_intros(1) set_Array_sort)
  then show ?thesis using False s assms by (auto simp: probe_of_text_def Let_def)
qed

lemma hd_insert_by_max:
  assumes "\<forall>a b. cmp a b = Fin (k b - k a)"
    and "acc \<noteq> []" "\<forall>c \<in> set acc. k c \<le> k (hd acc)"
  shows "insert_by cmp x acc \<noteq> [] \<and> (\<forall>c \<in> set (insert_by cmp x acc). k c \<le> k (hd (insert_by cmp x acc)))"
proof (cases acc)
  case Nil
  with assms(2) show ?thesis by simp
next
  case (Cons y ys)
  show ?thesis
  proof (cases "k y < k x")
    case True
    then have "insert_by cmp x acc = x # y # ys" by (simp add: Cons assms(1))
    moreover have "\<forall>c \<in> set acc. k c \<le> k x" using assms(3) True Cons by auto
    ultimately show ?thesis using Cons by auto
  next
    case False
    then have "insert_by cmp x acc = y # insert_by cmp x ys" by (simp add: Cons assms(1))
    then show ?thesis using assms(3) False Cons by (auto simp: set_insert_by)
  qed
qed

lemma foldl_insert_by_max:
  assumes "\<forall>a b. cmp a b = Fin (k b - k a)"
    and "acc \<noteq> []" "\<forall>c \<in> set acc. k c \<le> k (hd acc)"
  shows "foldl (\<lambda>acc x. insert_by cmp x acc) acc xs \<noteq> [] \<and>
     (\<forall>c \<in> set (foldl (\<lambda>acc x. insert_by cmp x acc) acc xs).
         k c \<le> k (hd (foldl (\<lambda>acc x. insert_by cmp x acc) acc xs)))"
  using assms(2,3)
proof (induction xs arbitrary: acc)
  case Nil
  then show ?case by simp
next
  case (Cons x xs)
  from hd_insert_by_max[OF assms(1) Cons.prems] Cons.IH show ?case by simp
qed

lemma Array_sort_head_max:
  assumes "\<forall>a b. cmp a b = Fin (k b - k a)" and "Array_sort cmp xs = best # rest"
  shows "\<forall>c \<in> set xs. k c \<le> k best"
proof (cases xs)
  case Nil
  with assms(2) show ?thesis by (simp add: Array_sort_def)
next
  case (Cons x xs')
  have "Array_sort cmp xs = foldl (\<lambda>acc x. insert_by cmp x acc) [x] xs'"
    by (simp add: Array_sort_def Cons)
  moreover have "\<forall>c \<in> set (foldl (\<lambda>acc x. insert_by cmp x acc) [x] xs').
         k c \<le> k (hd (foldl (\<lambda>acc x. insert_by cmp x acc) [x] xs'))"
    using foldl_insert_by_max[OF assms(1), where acc="[x]" and xs="xs'"] by simp
  ultimately have "\<forall>c \<in> set (Array_sort cmp xs). k c \<le> k (hd (Array_sort cmp xs))" by simp
  then have "\<forall>c \<in> set xs. k c \<le> k (hd (Array_sort cmp xs))" unfolding set_Array_sort .
  then show ?thesis by (simp add: assms(2))
qed

lemma best_candidate_maximizes:
  assumes num: "\<forall>c \<in> set (surviving_candidates env text). \<exists>r. quality c = Fin r"
    and ne: "surviving_candidates env text \<noteq> []"
    and nt: "\<not> list_ex candidate_throws (parseVisionDetections env text)"
  shows "\<exists>best \<in> set (surviving_candidates env text).
           probe_of_text env text =
             Inr \<lparr> found = True, confidence = confidence best, bbox = bbox best,
                   ai_matchedReference = ai_matchedReference best, rawText = text \<rparr> \<and>
           (\<forall>c \<in> set (surviving_candidates env text). js_le (quality c) (quality best))"
proof -
  let ?cs = "surviving_candidates env text"
  define cmp where "cmp = (\<lambda>(a::candidate) (b::candidate). Fin (fin_quality b - fin_quality a))"
  have q: "quality c = Fin (fin_quality c)" if "c \<in> set ?cs" for c
    using num that by (auto simp: fin_quality_def)
  have ins: "insert_by by_quality x acc = insert_by cmp x acc" if "x \<in> set ?cs" "set acc \<subseteq> set ?cs" for x acc
    using that by (induction acc) (auto simp: by_quality_def cmp_def q js_sub_def)
  have fo: "foldl (\<lambda>acc x. insert_by by_quality x acc) acc xs = foldl (\<lambda>acc x. insert_by cmp x acc) acc xs"
    if "set xs \<subseteq> set ?cs" "set acc \<subseteq> set ?cs" for xs acc
    using that
  proof (induction xs arbitrary: acc)
    case Nil
    then show ?case by simp
  next
    case (Cons x xs)
    have "set (insert_by cmp x acc) \<subseteq> set ?cs" using Cons.prems by (auto simp: set_insert_by)
    with Cons show ?case by (simp add: ins)
  qed
  have same: "Array_sort by_quality ?cs = Array_sort cmp ?cs"
    unfolding Array_sort_def by (rule fo) simp_all
  obtain best rest where s: "Array_sort by_quality ?cs = best # rest"
    using ne by (cases "Array_sort by_quality ?cs") (auto simp: Array_sort_Nil)
  have mem: "best \<in> set ?cs" by (metis s list.set_intros(1) set_Array_sort)
  have "\<forall>c \<in> set ?cs. fin_quality c \<le> fin_quality best"
  proof (rule Array_sort_head_max[where cmp=cmp and rest=rest])
    show "\<forall>a b. cmp a b = Fin (fin_quality b - fin_quality a)" by (simp add: cmp_def)
    show "Array_sort cmp ?cs = best # rest" using same s by simp
  qed
  then have "\<forall>c \<in> set ?cs. js_le (quality c) (quality best)"
    using q mem by simp
  then show ?thesis using mem s ne nt by (auto simp: probe_of_text_def Let_def)
qed

lemma lower_char_backtick:
  assumes "lower_char c = CHR 0x60"
  shows "c = CHR 0x60"
proof (cases "map_of (zip ''ABCDEFGHIJKLMNOPQRSTUVWXYZ'' ''abcdefghijklmnopqrstuvwxyz'') c")
  case None
  with assms show ?thesis by (simp add: lower_char_def)
next
  case (Some l)
  then have "(c, l) \<in> set (zip ''ABCDEFGHIJKLMNOPQRSTUVWXYZ'' ''abcdefghijklmnopqrstuvwxyz'')"
    by (rule map_of_SomeD)
  then have "l \<in> set ''abcdefghijklmnopqrstuvwxyz''" by (rule set_zip_rightD)
  moreover have "l = CHR 0x60" using assms Some by (simp add: lower_char_def)
  ultimately show ?thesis by simp
qed

lemma lower_char_backtick_id: "lower_char (CHR 0x60) = CHR 0x60"
  by (simp add: lower_char_def)

lemma matches_ci_head:
  assumes "pat \<noteq> []" "matches_ci pat (c # s)"
  shows "lower_char c = lower_char (hd pat)"
proof -
  from assms(2) have "map lower_char (take (length pat) (c # s)) = map lower_char pat"
    by (simp add: matches_ci_def)
  then have "hd (map lower_char (take (length pat) (c # s))) = hd (map lower_char pat)" by simp
  then show ?thesis using assms(1) by (cases pat) auto
qed

lemma remove_all_ci_skip:
  assumes "hd pat = CHR 0x60" "pat \<noteq> []" "CHR 0x60 \<notin> set s"
  shows "remove_all_ci pat (s @ t) = s @ remove_all_ci pat t"
  using assms(3)
proof (induction s)
  case Nil
  then show ?case by simp
next
  case (Cons c s)
  have "\<not> matches_ci pat (c # s @ t)"
  proof
    assume "matches_ci pat (c # s @ t)"
    from matches_ci_head[OF assms(2) this] assms(1) have "c = CHR 0x60"
      by (simp add: lower_char_backtick lower_char_backtick_id)
    with Cons.prems show False by simp
  qed
  then show ?case using Cons by (subst remove_all_ci.simps) simp
qed

lemma remove_all_ci_hit:
  assumes "pat \<noteq> []"
  shows "remove_all_ci pat (pat @ t) = remove_all_ci pat t"
proof -
  have "matches_ci pat (pat @ t)" by (simp add: matches_ci_def)
  then show ?thesis using assms by (subst remove_all_ci.simps) simp
qed

lemma remove_all_ci_short:
  "length s < length pat \<Longrightarrow> remove_all_ci pat s = s"
proof (induction s)
  case Nil
  then show ?case by (subst remove_all_ci.simps) simp
next
  case (Cons c s)
  then have "\<not> matches_ci pat (c # s)" by (simp add: matches_ci_def)
  then show ?case using Cons by (subst remove_all_ci.simps) simp
qed

lemma remove_all_ci_Nil: "remove_all_ci pat [] = []"
  by (subst remove_all_ci.simps) simp

lemma trim_strip:
  assumes "\<forall>c \<in> set a. is_space c" "\<forall>c \<in> set b. is_space c"
    and "s \<noteq> []" "\<not> is_space (hd s)" "\<not> is_space (last s)"
  shows "trim (a @ s @ b) = s"
proof -
  have 1: "dropWhile is_space (a @ s @ b) = s @ b"
    using assms(1,3,4) by (simp add: dropWhile_append2 dropWhile_eq_self_iff)
  have "dropWhile is_space (rev b @ rev s) = dropWhile is_space (rev s)"
    by (rule dropWhile_append2) (use assms(2) in auto)
  also have "\<dots> = rev s"
    using assms(3,5) by (simp add: dropWhile_eq_self_iff hd_rev)
  finally have 2: "dropWhile is_space (rev (s @ b)) = rev s" by simp
  show ?thesis unfolding trim_def 1 2 by simp
qed

lemma cleanModelJsonText_fenced:
  assumes "CHR 0x60 \<notin> set s" "s \<noteq> []" "\<not> is_space (hd s)" "\<not> is_space (last s)"
    and "\<forall>c \<in> set a. is_space c" "\<forall>c \<in> set b. is_space c"
  shows "cleanModelJsonText (([CHR 0x60, CHR 0x60, CHR 0x60] @ ''json'') @ (a @ s @ b) @ [CHR 0x60, CHR 0x60, CHR 0x60])
           = s"
proof -
  let ?f = "[CHR 0x60, CHR 0x60, CHR 0x60]"
  have sp: "\<not> is_space (CHR 0x60)" by (simp add: is_space_def)
  have nb: "CHR 0x60 \<notin> set (a @ s @ b)" using assms(1,5,6) sp by auto
  have "remove_all_ci (?f @ ''json'') ((?f @ ''json'') @ (a @ s @ b) @ ?f) =
        remove_all_ci (?f @ ''json'') ((a @ s @ b) @ ?f)"
    by (rule remove_all_ci_hit) simp
  also have "\<dots> = (a @ s @ b) @ remove_all_ci (?f @ ''json'') ?f"
    by (rule remove_all_ci_skip[OF _ _ nb]) simp_all
  also have "remove_all_ci (?f @ ''json'') ?f = ?f"
    by (rule remove_all_ci_short) simp
  finally have 1: "remove_all_ci (?f @ ''json'') ((?f @ ''json'') @ (a @ s @ b) @ ?f) = (a @ s @ b) @ ?f" .
  have "remove_all_ci ?f ((a @ s @ b) @ ?f) = (a @ s @ b) @ remove_all_ci ?f ?f"
    by (rule remove_all_ci_skip[OF _ _ nb]) simp_all
  also have "remove_all_ci ?f ?f = []"
    using remove_all_ci_hit[of ?f "[]"] by (simp add: remove_all_ci_Nil)
  finally have 2: "remove_all_ci ?f ((a @ s @ b) @ ?f) = a @ s @ b" by simp
  have 3: "trim (a @ s @ b) = s" using assms by (intro trim_strip) simp_all
  show ?thesis unfolding cleanModelJsonText_def 1 2 3 by simp
qed

lemma cleanModelJsonText_plain:
  assumes "CHR 0x60 \<notin> set s" "s \<noteq> []" "\<not> is_space (hd s)" "\<not> is_space (last s)"
  shows "cleanModelJsonText s = s"
proof -
  let ?f = "[CHR 0x60, CHR 0x60, CHR 0x60]"
  have 1: "remove_all_ci (?f @ ''json'') s = s"
    using remove_all_ci_skip[of "?f @ ''json''" s "[]"] assms(1) by (simp add: remove_all_ci_Nil)
  have 2: "remove_all_ci ?f s = s"
    using remove_all_ci_skip[of ?f s "[]"] assms(1) by (simp add: remove_all_ci_Nil)
  have 3: "trim s = s" using trim_strip[of "[]" "[]" s] assms by simp
  show ?thesis unfolding cleanModelJsonText_def 1 2 3 using assms(2) by simp
qed

lemma object_text_plain:
  "CHR 0x60 \<notin> set (object_text c x) \<longleftrightarrow> CHR 0x60 \<notin> set c \<and> CHR 0x60 \<notin> set x"
  "object_text c x \<noteq> []"
  "\<not> is_space (hd (object_text c x))"
  "\<not> is_space (last (object_text c x))"
  by (auto simp add: object_text_def bbox_text_def quoted_def is_space_def)

lemma clean_nan: "cleanModelJsonText reply_nan = reply_nan"
  unfolding reply_nan_def by (rule cleanModelJsonText_plain) (simp_all add: object_text_plain quoted_def)

lemma parse_nan: "parseVisionDetections example_env reply_nan = [object_json (JStr ''high'') 0.5]"
proof -
  have "reply_nan \<noteq> []" by (simp add: reply_nan_def object_text_def)
  then show ?thesis
    by (simp add: parseVisionDetections_def clean_nan example_env_def object_json_def)
qed

lemma object_json_throws: "candidate_throws (object_json c x) = Number_throws c"
  by (simp add: candidate_throws_def object_json_def bbox_json_def number_or_zero_throws_def)

lemma cand_nan: "to_candidate example_env (object_json (JStr ''high'') 0.5) =
   \<lparr> found = True, confidence = NaN, bbox = Some (fin_box 0.5 0.8 0.2 0.1), ai_matchedReference = None \<rparr>"
  by (simp add: to_candidate_def object_json_def bbox_json_def truthy_opt_def number_or_zero_def
      example_env_def clamp_def Math_min_def Math_max_def fin_box_def)

text \<open>
  C4, at a reply whose confidence is not a number:
  \<^verbatim>\<open>{"found":true,"confidence":"high","bbox":{"x":0.5,"y":0.8,"width":0.2,"height":0.1}}\<close>
  \<open>Number("high")\<close> is NaN, \<open>Math.min(1, NaN)\<close> and \<open>Math.max(0, NaN)\<close> are NaN, so \<open>clamp\<close>
  returns NaN: the candidate survives the filter, and the result is \<open>found = true\<close> with a
  confidence that is not in \<open>[0, 1]\<close>.
\<close>

theorem probe_of_text_nan_confidence:
  "probe_of_text example_env reply_nan =
     Inr \<lparr> found = True, confidence = NaN, bbox = Some (fin_box 0.5 0.8 0.2 0.1),
           ai_matchedReference = None, rawText = reply_nan \<rparr> \<and>
   \<not> js_le (Fin 0) NaN \<and> \<not> js_le NaN (Fin 1)"
  unfolding probe_of_text_def surviving_candidates_def parse_nan list.map cand_nan
  by (simp add: survives_def fin_box_def js_gt_def Array_sort_def object_json_throws)

lemma clean_good: "cleanModelJsonText reply_good = object_text ''0.9'' ''0.5''"
proof -
  have r: "reply_good = ([CHR 0x60, CHR 0x60, CHR 0x60] @ ''json'') @
          ([CHR 0x0A] @ object_text ''0.9'' ''0.5'' @ [CHR 0x0A]) @ [CHR 0x60, CHR 0x60, CHR 0x60]"
    by (simp add: reply_good_def)
  show ?thesis
    unfolding r by (rule cleanModelJsonText_fenced) (simp_all add: object_text_plain, simp_all add: is_space_def)
qed

lemma parse_good: "parseVisionDetections example_env reply_good = [object_json (JNum (Fin 0.9)) 0.5]"
proof -
  have n: "object_text ''0.9'' ''0.5'' \<noteq> []" by (simp add: object_text_def)
  have p: "JSON_parse example_env (object_text ''0.9'' ''0.5'') = Some (object_json (JNum (Fin 0.9)) 0.5)"
    by (simp add: example_env_def reply_nan_def reply_two_def object_text_def bbox_text_def quoted_def)
  show ?thesis
    unfolding parseVisionDetections_def clean_good Let_def p using n by (simp add: object_json_def)
qed

lemma body_parse: "JSON_parse example_env body_good = Some (JObj [(''output_text'', JStr reply_good)])"
  by (simp add: example_env_def body_good_def reply_nan_def reply_two_def object_text_def bbox_text_def quoted_def)

lemma text_good: "responseToText (JObj [(''output_text'', JStr reply_good)]) = Inr reply_good"
proof -
  have "trim reply_good \<noteq> []"
    by (simp add: trim_def reply_good_def is_space_def object_text_def)
  then show ?thesis by (simp add: responseToText_def nonblank_string_def)
qed

lemma cand_good: "to_candidate example_env (object_json (JNum (Fin 0.9)) 0.5) =
   \<lparr> found = True, confidence = Fin 0.9, bbox = Some (fin_box 0.5 0.8 0.2 0.1), ai_matchedReference = None \<rparr>"
  by (simp add: to_candidate_def object_json_def bbox_json_def truthy_opt_def number_or_zero_def
      clamp_Fin fin_box_def)

lemma vision_good: "detectLogoWithVision example_env \<lparr> resp_ok = True, resp_status = 200, resp_body = body_good \<rparr> =
   Inr \<lparr> found = True, confidence = Fin 0.9, bbox = Some (fin_box 0.5 0.8 0.2 0.1),
         ai_matchedReference = None, rawText = reply_good \<rparr>"
proof -
  have "probe_of_text example_env reply_good = Inr \<lparr> found = True, confidence = Fin 0.9, bbox = Some (fin_box 0.5 0.8 0.2 0.1),
         ai_matchedReference = None, rawText = reply_good \<rparr>"
    unfolding probe_of_text_def surviving_candidates_def parse_good list.map cand_good
    by (simp add: survives_def fin_box_def js_gt_def Array_sort_def object_json_throws)
  then show ?thesis
    by (simp add: detectLogoWithVision_def body_parse text_good)
qed

lemma cand_nan_left: "to_candidate example_env (object_json (JStr ''high'') 0.1) =
   \<lparr> found = True, confidence = NaN, bbox = Some (fin_box 0.1 0.8 0.2 0.1), ai_matchedReference = None \<rparr>"
  by (simp add: to_candidate_def object_json_def bbox_json_def truthy_opt_def number_or_zero_def
      example_env_def clamp_def Math_min_def Math_max_def fin_box_def)

lemma parse_two: "parseVisionDetections example_env reply_two =
    [object_json (JStr ''high'') 0.1, object_json (JNum (Fin 0.9)) 0.5]"
proof -
  have c: "cleanModelJsonText reply_two = reply_two"
    unfolding reply_two_def
    by (rule cleanModelJsonText_plain) (simp_all add: object_text_plain quoted_def is_space_def)
  have p: "JSON_parse example_env reply_two =
      Some (JArr [object_json (JStr ''high'') 0.1, object_json (JNum (Fin 0.9)) 0.5])"
    by (simp add: example_env_def reply_two_def reply_nan_def object_text_def)
  have "reply_two \<noteq> []" by (simp add: reply_two_def)
  then show ?thesis unfolding parseVisionDetections_def c Let_def p by simp
qed

lemma survivors_two: "surviving_candidates example_env reply_two =
     [\<lparr> found = True, confidence = NaN, bbox = Some (fin_box 0.1 0.8 0.2 0.1), ai_matchedReference = None \<rparr>,
      \<lparr> found = True, confidence = Fin 0.9, bbox = Some (fin_box 0.5 0.8 0.2 0.1), ai_matchedReference = None \<rparr>]"
  unfolding surviving_candidates_def parse_two list.map cand_nan_left cand_good
  by (simp add: survives_def fin_box_def js_gt_def)

text \<open>
  C7, at a reply of two objects, the first with the confidence \<open>"high"\<close> and \<open>x = 0.1\<close>, the
  second with the confidence 0.9 and \<open>x = 0.5\<close>. Both survive the filter. The key of the
  first is NaN, every comparison with it gives NaN, which the sort takes as "equal", so
  the order stays and the first candidate is returned, although the second has the key
  \<open>0.9 + 0.1 * 0.5 = 0.95\<close>.
\<close>

theorem probe_of_text_nan_candidate_first:
  "surviving_candidates example_env reply_two =
     [\<lparr> found = True, confidence = NaN, bbox = Some (fin_box 0.1 0.8 0.2 0.1),
        ai_matchedReference = None \<rparr>,
      \<lparr> found = True, confidence = Fin 0.9, bbox = Some (fin_box 0.5 0.8 0.2 0.1),
        ai_matchedReference = None \<rparr>] \<and>
   probe_of_text example_env reply_two =
     Inr \<lparr> found = True, confidence = NaN, bbox = Some (fin_box 0.1 0.8 0.2 0.1),
           ai_matchedReference = None, rawText = reply_two \<rparr>"
proof -
  have "probe_of_text example_env reply_two =
     Inr \<lparr> found = True, confidence = NaN, bbox = Some (fin_box 0.1 0.8 0.2 0.1),
           ai_matchedReference = None, rawText = reply_two \<rparr>"
    unfolding probe_of_text_def survivors_two parse_two
    by (simp add: Array_sort_def by_quality_def quality_def fin_box_def js_sub_def object_json_throws)
  then show ?thesis using survivors_two by simp
qed

lemma probe_of_text_found:
  assumes "probe_of_text env text = Inr r"
  shows "(found r \<longleftrightarrow>
           (\<exists>item \<in> set (parseVisionDetections env text).
              found (to_candidate env item) \<and>
              (\<exists>b. bbox (to_candidate env item) = Some b \<and>
                   js_gt (box_width b) (Fin 0) \<and> js_gt (box_height b) (Fin 0)))) \<and>
         (found r \<longrightarrow> (\<exists>b. bbox r = Some b \<and> js_gt (box_width b) (Fin 0) \<and> js_gt (box_height b) (Fin 0))) \<and>
         (\<not> found r \<longrightarrow> confidence r = Fin 0 \<and> bbox r = None \<and> ai_matchedReference r = None) \<and>
         rawText r = text"
proof -
  have sv: "survives c \<longleftrightarrow> found c \<and> (\<exists>b. bbox c = Some b \<and> js_gt (box_width b) (Fin 0) \<and> js_gt (box_height b) (Fin 0))"
    for c :: candidate
    by (auto simp: survives_def split: option.splits)
  have ex: "(\<exists>item \<in> set (parseVisionDetections env text).
              found (to_candidate env item) \<and>
              (\<exists>b. bbox (to_candidate env item) = Some b \<and>
                   js_gt (box_width b) (Fin 0) \<and> js_gt (box_height b) (Fin 0))) \<longleftrightarrow>
            surviving_candidates env text \<noteq> []"
    by (auto simp: surviving_candidates_def filter_empty_conv sv)
  from assms have "\<not> list_ex candidate_throws (parseVisionDetections env text)"
    by (auto simp: probe_of_text_def split: if_splits)
  from probe_of_text_cases[OF this] show ?thesis
  proof
    assume "surviving_candidates env text = [] \<and>
      probe_of_text env text = Inr \<lparr> found = False, confidence = Fin 0, bbox = None,
                                      ai_matchedReference = None, rawText = text \<rparr>"
    with assms ex show ?thesis by auto
  next
    assume "\<exists>best \<in> set (surviving_candidates env text).
      probe_of_text env text = Inr \<lparr> found = True, confidence = confidence best, bbox = bbox best,
                                      ai_matchedReference = ai_matchedReference best, rawText = text \<rparr>"
    then obtain best where b: "best \<in> set (surviving_candidates env text)"
      "probe_of_text env text = Inr \<lparr> found = True, confidence = confidence best, bbox = bbox best,
                                      ai_matchedReference = ai_matchedReference best, rawText = text \<rparr>"
      by blast
    from b(1) have "survives best" by (simp add: surviving_candidates_def)
    then have "\<exists>bb. bbox best = Some bb \<and> js_gt (box_width bb) (Fin 0) \<and> js_gt (box_height bb) (Fin 0)"
      by (simp add: sv)
    moreover have "surviving_candidates env text \<noteq> []" using b(1) by auto
    ultimately show ?thesis using assms b(2) ex by auto
  qed
qed

lemma detectLogoWithVision_text:
  assumes "detectLogoWithVision env response = Inr r"
  shows "probe_of_text env (rawText r) = Inr r"
proof -
  from assms obtain j t where "responseToText j = Inr t" "probe_of_text env t = Inr r"
    by (auto simp: detectLogoWithVision_def split: if_splits option.splits sum.splits)
  moreover from probe_of_text_found[OF this(2)] have "rawText r = t" by simp
  ultimately show ?thesis by simp
qed

lemma clamp_unit_range:
  "clamp v (Fin 0) (Fin 1) = NaN \<and> v = NaN \<or>
   (\<exists>r. clamp v (Fin 0) (Fin 1) = Fin r \<and> 0 \<le> r \<and> r \<le> 1)"
  by (cases v) (auto simp: clamp_def Math_min_def Math_max_def)

text \<open>
  C10: whenever \<open>detectLogoWithVision\<close> returns, its result has \<open>found = true\<close> exactly when
  some parsed item gives a candidate with a true \<open>found\<close> flag and a box of positive width
  and height; a result with \<open>found = true\<close> carries a box of positive width and height;
  and a result with \<open>found = false\<close> has the confidence 0, no box and no matched reference.
\<close>

theorem detectLogoWithVision_found_nondegenerate:
  assumes "detectLogoWithVision env response = Inr r"
  shows "(found r \<longleftrightarrow>
           (\<exists>item \<in> set (parseVisionDetections env (rawText r)).
              found (to_candidate env item) \<and>
              (\<exists>b. bbox (to_candidate env item) = Some b \<and>
                   js_gt (box_width b) (Fin 0) \<and> js_gt (box_height b) (Fin 0)))) \<and>
         (found r \<longrightarrow>
            (\<exists>b. bbox r = Some b \<and> js_gt (box_width b) (Fin 0) \<and> js_gt (box_height b) (Fin 0))) \<and>
         (\<not> found r \<longrightarrow> confidence r = Fin 0 \<and> bbox r = None \<and> ai_matchedReference r = None)"
  using probe_of_text_found[OF detectLogoWithVision_text[OF assms]] by blast

theorem detectLogoWithVision_found_nondegenerate_witness:
  "detectLogoWithVision example_env \<lparr> resp_ok = True, resp_status = 200, resp_body = body_good \<rparr> =
     Inr \<lparr> found = True, confidence = Fin 0.9, bbox = Some (fin_box 0.5 0.8 0.2 0.1),
           ai_matchedReference = None, rawText = reply_good \<rparr> \<and>
   (\<exists>item \<in> set (parseVisionDetections example_env reply_good).
      found (to_candidate example_env item) \<and>
      (\<exists>b. bbox (to_candidate example_env item) = Some b \<and>
           js_gt (box_width b) (Fin 0) \<and> js_gt (box_height b) (Fin 0)))"
  using detectLogoWithVision_found_nondegenerate[OF vision_good] vision_good by simp


section \<open>Properties of the decision and audit engine\<close>

subsection \<open>Numbers and boxes\<close>

lemma js_le_trans_lt: "js_lt c a \<Longrightarrow> js_le a b \<Longrightarrow> js_le c b"
  by (cases a; cases b; cases c) auto

lemma js_lt_not_le: "js_lt b a \<Longrightarrow> \<not> js_le a b"
  by (cases a; cases b) auto

lemma is_fin_iff: "is_fin v \<longleftrightarrow> (\<exists>r. v = Fin r)"
  by (cases v) auto

lemma finite_box_iff: "finite_box b \<longleftrightarrow> (\<exists>x y w h. b = fin_box x y w h)"
  by (cases b) (auto simp: finite_box_def fin_box_def is_fin_iff)

lemma covering_fin_box: "covering_box (fin_box x y w h) \<longleftrightarrow> 0 < w \<and> 0 < h"
  by (simp add: covering_box_def finite_box_def fin_box_def)

lemma render_size: "\<lparr> size_width = fin_nat w, size_height = fin_nat h \<rparr> = fin_size (real w) (real h)"
  by (simp add: fin_size_def fin_nat_def)

lemma fin_size_iff:
  "is_fin (size_width s) \<and> is_fin (size_height s) \<longleftrightarrow> (\<exists>w h. s = fin_size w h)"
  by (cases s) (auto simp: fin_size_def is_fin_iff)

lemma imageBboxToPdfRect_covering:
  assumes "finite_box b" "0 < w" "0 < h" "is_fin (size_width ps)" "is_fin (size_height ps)"
  shows "covering_box (imageBboxToPdfRect b \<lparr> size_width = fin_nat w, size_height = fin_nat h \<rparr> ps)"
proof -
  from assms(1) obtain bx by' bw bh where b: "b = fin_box bx by' bw bh"
    by (auto simp: finite_box_iff)
  from assms(4,5) obtain pw ph where ps: "ps = fin_size pw ph"
    using fin_size_iff by blast
  have r: "real w \<noteq> 0" "real h \<noteq> 0" using assms(2,3) by simp_all
  show ?thesis
    unfolding b ps render_size imageBboxToPdfRect_Fin[OF r] covering_fin_box
    by (simp add: less_max_iff_disj)
qed

lemma getStableFooterPdfRect_covering:
  assumes "is_fin (size_width ps)" "js_lt (Fin 0) (size_width ps)"
    and "is_fin (size_height ps)" "js_lt (Fin 0) (size_height ps)"
    and "is_fin ratio" "js_lt (Fin 0) ratio"
  shows "\<exists>pw ph. 0 < pw \<and> 0 < ph \<and> getStableFooterPdfRect ps ratio = fin_box 0 0 pw ph"
proof -
  from assms(1,3) obtain pw ph where ps: "ps = fin_size pw ph"
    using fin_size_iff by blast
  from assms(5) obtain q where q: "ratio = Fin q" by (auto simp: is_fin_iff)
  from assms(2,4,6) have "0 < pw" "0 < ph" "0 < q" by (simp_all add: ps q fin_size_def)
  then have "0 < pw \<and> 0 < ph * q \<and> getStableFooterPdfRect ps ratio = fin_box 0 0 pw (ph * q)"
    by (simp add: getStableFooterPdfRect_def ps q fin_size_def fin_box_def)
  then show ?thesis by blast
qed

subsection \<open>Painting\<close>

lemma paint_accepted:
  assumes "\<forall>c \<in> set calls. draw c = None"
  shows "paint draw calls = Inr calls"
  using assms by (induction calls) simp_all

lemma paint_Inr: "paint draw calls = Inr painted \<Longrightarrow> painted = calls"
  by (induction calls arbitrary: painted) (auto split: option.splits sum.splits)

lemma paint_finite:
  assumes "\<forall>c. finite_box (op_rect c) \<longrightarrow> draw c = None"
    and "\<forall>c \<in> set calls. finite_box (op_rect c)"
  shows "paint draw calls = Inr calls"
  using assms by (intro paint_accepted) blast

text \<open>
  The rectangle \<open>drawBannerFitted\<close> gives the image, for a target of real numbers with a
  positive width and height and an image of positive width and height: the image keeps
  its aspect and is as wide or as high as the target.
\<close>

lemma drawBannerFitted_covering:
  assumes lib: "\<forall>c. finite_box (op_rect c) \<longrightarrow> draw c = None"
    and t: "0 < tw" "0 < th"
    and im: "0 < fst img" "0 < snd img"
    and off: "is_fin (bottomOffsetPx fp)"
  shows "\<exists>painted. drawBannerFitted draw i img (fin_box tx ty tw th) fp = Inr painted \<and>
           painted \<noteq> [] \<and>
           (\<forall>c \<in> set painted. is_redaction c \<and> op_page c = i \<and> covering_box (op_rect c))"
proof -
  define ia where "ia = real (fst img) / real (snd img)"
  have ia: "0 < ia" using im by (simp add: ia_def)
  have asp: "js_div (fin_nat (fst img)) (fin_nat (snd img)) = Fin ia"
    using im by (simp add: fin_nat_def ia_def)
  have tasp: "js_div (Fin tw) (Fin th) = Fin (tw / th)" using t by simp
  from off obtain q where q: "bottomOffsetPx fp = Fin q" by (auto simp: is_fin_iff)
  define o' where "o' = (if q = 0 then 0 else q)"
  have offset: "(if bottomOffsetPx fp = NaN \<or> bottomOffsetPx fp = Fin 0 then Fin 0 else bottomOffsetPx fp)
                  = Fin o'"
    by (simp add: q o'_def)
  define dw where "dw = (if bannerFit fp \<noteq> ''cover''
                         then (if tw / th < ia then tw else th * ia)
                         else (if tw / th < ia then th * ia else tw))"
  define dh where "dh = (if bannerFit fp \<noteq> ''cover''
                         then (if tw / th < ia then tw / ia else th)
                         else (if tw / th < ia then th else tw / ia))"
  have pos: "0 < dw" "0 < dh" using t ia by (simp_all add: dw_def dh_def)
  define calls where "calls =
     (if fillBackground fp then [FillRectangle i (fin_box tx ty tw th) SOLID_FOOTER_COLOR] else []) @
     [DrawImage i (fin_box (tx + (tw - dw) / 2) (ty + (th - dh) / 2 - o') dw dh)]"
  have fitted:
    "(if bannerFit fp \<noteq> ''cover''
      then (if js_gt (Fin ia) (Fin (tw / th))
            then (Fin tw, js_div (Fin tw) (Fin ia))
            else (js_mul (Fin th) (Fin ia), Fin th))
      else (if js_gt (Fin ia) (Fin (tw / th))
            then (js_mul (Fin th) (Fin ia), Fin th)
            else (Fin tw, js_div (Fin tw) (Fin ia)))) = (Fin dw, Fin dh)"
    using ia by (simp add: dw_def dh_def js_gt_def)
  have sel: "box_x (fin_box tx ty tw th) = Fin tx" "box_y (fin_box tx ty tw th) = Fin ty"
    "box_width (fin_box tx ty tw th) = Fin tw" "box_height (fin_box tx ty tw th) = Fin th"
    by (simp_all add: fin_box_def)
  have d: "drawBannerFitted draw i img (fin_box tx ty tw th) fp = paint draw calls"
    unfolding drawBannerFitted_def Let_def asp offset sel tasp not_not fitted fst_conv snd_conv calls_def
    by (simp add: fin_box_def js_sub_def)
  have cov: "\<forall>c \<in> set calls. is_redaction c \<and> op_page c = i \<and> covering_box (op_rect c)"
    using pos t by (simp add: calls_def covering_fin_box)
  then have "\<forall>c \<in> set calls. finite_box (op_rect c)"
    by (simp add: covering_box_def)
  from paint_finite[OF lib this] have "paint draw calls = Inr calls" .
  moreover have "calls \<noteq> []" by (simp add: calls_def)
  ultimately show ?thesis using d cov by auto
qed

subsection \<open>The decision\<close>

lemma detect_page_plausible_bbox:
  assumes "detect_page cfg js templates pg = Inr d" "det_plausible d"
  shows "bboxPx (det_match d) \<noteq> None"
proof -
  consider (f) "detect_forced pg = Inr d" | (a) "detect_ai js pg = Inr d"
    | (t) "detect_deterministic templates pg = Inr d"
    using assms(1) by (auto simp: detect_page_def split: if_splits)
  then show ?thesis
  proof cases
    case f
    then show ?thesis by (auto simp: detect_forced_def Let_def split: sum.splits)
  next
    case a
    then show ?thesis using assms(2)
      by (auto simp: detect_ai_def Let_def split: sum.splits option.splits if_splits)
  next
    case t
    then show ?thesis using assms(2)
      by (auto simp: detect_deterministic_def Let_def isBboxPlausible_def split: sum.splits option.splits)
  qed
qed

lemma regular_pageD:
  assumes "regular_page cfg fp banner pg d"
  shows "0 < pg_width pg" "0 < pg_height pg"
    "is_fin (size_width (pg_size pg))" "is_fin (size_height (pg_size pg))"
    "\<And>b. bboxPx (det_match d) = Some b \<Longrightarrow> finite_box b"
  using assms by (auto simp: regular_page_def split: option.splits)

lemma regular_page_banner:
  assumes "regular_page cfg fp banner pg d" "detectorMode cfg = ''ai-cut'' \<and> det_wideFooterStrip d"
  shows "js_lt (Fin 0) (size_width (pg_size pg))" "js_lt (Fin 0) (size_height (pg_size pg))"
    "is_fin (footerRatio fp)" "js_lt (Fin 0) (footerRatio fp)"
    "\<And>img. banner = Some img \<Longrightarrow> 0 < fst img \<and> 0 < snd img \<and> is_fin (bottomOffsetPx fp)"
  using assms by (auto simp: regular_page_def split: option.splits)

lemma regular_page_fill:
  assumes "regular_page cfg fp banner pg d" "\<not> (detectorMode cfg = ''ai-cut'' \<and> det_wideFooterStrip d)"
    and "bboxPx (det_match d) = Some b"
  shows "\<exists>c. pg_fill pg b = Inr c"
  using assms by (auto simp: regular_page_def split: option.splits sum.splits)

lemma decide_page_first:
  assumes "detectorMode cfg \<noteq> ''ai-probe''" "det_plausible d" "js_ge (score (det_match d)) autoT"
    and "redaction_of cfg fp banner draw i pg d = Inr (action, Some pdfRect, painted)"
    and "action = ''removed'' \<or> action = ''replaced_footer_banner''"
  shows "decide_page cfg fp banner draw autoT reviewT i pg d =
           Inr \<lparr> dec_action = action, dec_pdfRect = Some pdfRect, dec_debugPreviewRect = None,
                 dec_draws = painted \<rparr>"
  using assms(1,2,3,5) unfolding decide_page_def Let_def assms(4)
  by auto

lemma redaction_painted:
  assumes bb: "bboxPx (det_match d) = Some b"
    and reg: "regular_page cfg fp banner pg d"
    and lib: "\<forall>c. finite_box (op_rect c) \<longrightarrow> draw c = None"
  shows "\<exists>pdfRect painted.
           redaction_of cfg fp banner draw i pg d =
             Inr (if det_wideFooterStrip d then ''replaced_footer_banner'' else ''removed'',
                  Some pdfRect, painted) \<and>
           list_ex (\<lambda>c. is_redaction c \<and> op_page c = i \<and> covering_box (op_rect c)) painted"
proof -
  note r = regular_pageD[OF reg]
  from r(5)[OF bb] have fb: "finite_box b" .
  show ?thesis
  proof (cases "detectorMode cfg = ''ai-cut'' \<and> det_wideFooterStrip d")
    case True
    note n = regular_page_banner[OF reg True]
    from getStableFooterPdfRect_covering[OF r(3) n(1) r(4) n(2) n(3) n(4)] obtain pw ph where
      p: "0 < pw" "0 < ph" "getStableFooterPdfRect (pg_size pg) (footerRatio fp) = fin_box 0 0 pw ph"
      by blast
    show ?thesis
    proof (cases banner)
      case None
      have "paint draw [FillRectangle i (fin_box 0 0 pw ph) SOLID_FOOTER_COLOR] =
              Inr [FillRectangle i (fin_box 0 0 pw ph) SOLID_FOOTER_COLOR]"
        by (rule paint_finite[OF lib]) (simp add: finite_box_iff, blast)
      then show ?thesis using True None p by (simp add: redaction_of_def Let_def covering_fin_box)
    next
      case (Some img)
      from n(5)[OF Some] have im: "0 < fst img" "0 < snd img" and off: "is_fin (bottomOffsetPx fp)"
        by simp_all
      from drawBannerFitted_covering[OF lib p(1,2) im off, of i 0 0] obtain painted where
        d: "drawBannerFitted draw i img (fin_box 0 0 pw ph) fp = Inr painted" "painted \<noteq> []"
        "\<forall>c \<in> set painted. is_redaction c \<and> op_page c = i \<and> covering_box (op_rect c)"
        by blast
      from d(2,3) have "list_ex (\<lambda>c. is_redaction c \<and> op_page c = i \<and> covering_box (op_rect c)) painted"
        by (cases painted) (auto simp: list_ex_iff)
      then show ?thesis using True Some p d(1) by (simp add: redaction_of_def Let_def)
    qed
  next
    case False
    from regular_page_fill[OF reg False bb] obtain c where fill: "pg_fill pg b = Inr c" by blast
    let ?rect = "imageBboxToPdfRect b
                   \<lparr> size_width = fin_nat (pg_width pg), size_height = fin_nat (pg_height pg) \<rparr> (pg_size pg)"
    have cov: "covering_box ?rect"
      by (rule imageBboxToPdfRect_covering[OF fb r(1,2,3,4)])
    then have "finite_box ?rect" by (simp add: covering_box_def)
    then have "paint draw [FillRectangle i ?rect col] = Inr [FillRectangle i ?rect col]" for col
      by (intro paint_finite[OF lib]) simp
    then show ?thesis using False bb fill cov by (simp add: redaction_of_def Let_def)
  qed
qed

lemma preview_painted:
  assumes reg: "regular_page cfg fp banner pg d"
    and lib: "\<forall>c. finite_box (op_rect c) \<longrightarrow> draw c = None"
    and bb: "bboxPx (det_match d) = Some b"
  shows "paint draw [OutlineRectangle i (imageBboxToPdfRect b
                   \<lparr> size_width = fin_nat (pg_width pg), size_height = fin_nat (pg_height pg) \<rparr>
                   (pg_size pg))] =
         Inr [OutlineRectangle i (imageBboxToPdfRect b
                   \<lparr> size_width = fin_nat (pg_width pg), size_height = fin_nat (pg_height pg) \<rparr>
                   (pg_size pg))]"
proof -
  note r = regular_pageD[OF reg]
  from r(5)[OF bb] have fb: "finite_box b" .
  have "covering_box (imageBboxToPdfRect b
                   \<lparr> size_width = fin_nat (pg_width pg), size_height = fin_nat (pg_height pg) \<rparr>
                   (pg_size pg))"
    by (rule imageBboxToPdfRect_covering[OF fb r(1,2,3,4)])
  then show ?thesis by (intro paint_finite[OF lib]) (simp add: covering_box_def)
qed

lemma decide_page_auto:
  assumes "detectorMode cfg \<noteq> ''ai-probe''" "det_plausible d" "js_ge (score (det_match d)) autoT"
    and bb: "bboxPx (det_match d) = Some b"
    and reg: "regular_page cfg fp banner pg d"
    and lib: "\<forall>c. finite_box (op_rect c) \<longrightarrow> draw c = None"
  shows "\<exists>dec. decide_page cfg fp banner draw autoT reviewT i pg d = Inr dec \<and>
           dec_action dec = (if det_wideFooterStrip d then ''replaced_footer_banner'' else ''removed'') \<and>
           redacted i dec"
proof -
  from redaction_painted[OF bb reg lib, of i] obtain pdfRect painted where
    p: "redaction_of cfg fp banner draw i pg d =
             Inr (if det_wideFooterStrip d then ''replaced_footer_banner'' else ''removed'',
                  Some pdfRect, painted)"
    and c: "list_ex (\<lambda>c. is_redaction c \<and> op_page c = i \<and> covering_box (op_rect c)) painted"
    by blast
  have "decide_page cfg fp banner draw autoT reviewT i pg d =
          Inr \<lparr> dec_action = (if det_wideFooterStrip d then ''replaced_footer_banner'' else ''removed''),
                dec_pdfRect = Some pdfRect, dec_debugPreviewRect = None, dec_draws = painted \<rparr>"
    by (rule decide_page_first[OF assms(1,2,3) p]) simp
  then show ?thesis using c by (simp add: redacted_def)
qed

lemma decide_page_no_redaction:
  assumes first: "detectorMode cfg = ''ai-probe'' \<or> \<not> det_plausible d \<or> \<not> js_ge (score (det_match d)) autoT"
    and reg: "regular_page cfg fp banner pg d"
    and lib: "\<forall>c. finite_box (op_rect c) \<longrightarrow> draw c = None"
  shows "\<exists>dec. decide_page cfg fp banner draw autoT reviewT i pg d = Inr dec \<and>
           dec_action dec = (if det_plausible d \<and> js_ge (score (det_match d)) reviewT
                             then ''review'' else ''none'') \<and>
           no_redaction dec"
proof (cases "bboxPx (det_match d)")
  case None
  then show ?thesis using first by (auto simp: decide_page_def Let_def no_redaction_def)
next
  case (Some b)
  note o = preview_painted[OF reg lib Some, of i]
  show ?thesis using first Some o
    by (auto simp: decide_page_def Let_def no_redaction_def)
qed

text \<open>
  C1 (amended): for every page on which detection returns, whose surroundings are
  regular (the page was rendered with a positive size, its size in the document and the
  box of the match are real numbers; where the footer is replaced as a whole, the page
  size and the footer ratio are positive and the banner image is not empty; elsewhere
  the colour around the box can be sampled) and whose drawing calls on rectangles of
  real numbers the PDF library accepts, and for every pair of thresholds with
  \<open>reviewThreshold < autoThreshold\<close>, the decision returns, and: in every detector mode
  but \<open>ai-probe\<close>, if the match is plausible and \<open>score \<ge> autoThreshold\<close>, a redaction is
  painted on the page, on a rectangle of positive width and height, and the action is
  \<open>replaced_footer_banner\<close> when the match was classified as a wide footer strip, else
  \<open>removed\<close>; in these modes, if the match is plausible and
  \<open>reviewThreshold \<le> score < autoThreshold\<close>, the action is \<open>review\<close> and no redaction is
  painted; in the mode \<open>ai-probe\<close>, if the match is plausible and
  \<open>score \<ge> reviewThreshold\<close>, the action is \<open>review\<close> and no redaction is painted, also when
  the score reaches \<open>autoThreshold\<close>; in every other case the action is \<open>none\<close> and no
  redaction is painted.
\<close>

theorem decide_page_threshold_policy:
  assumes det: "detect_page cfg js templates pg = Inr d"
    and reg: "regular_page cfg fp replacementBanner pg d"
    and lib: "\<forall>c. finite_box (op_rect c) \<longrightarrow> draw c = None"
    and thr: "js_lt reviewT autoT"
  shows "\<exists>dec. decide_page cfg fp replacementBanner draw autoT reviewT i pg d = Inr dec \<and>
     (detectorMode cfg \<noteq> ''ai-probe'' \<and> det_plausible d \<and> js_ge (score (det_match d)) autoT \<longrightarrow>
        dec_action dec = (if det_wideFooterStrip d then ''replaced_footer_banner'' else ''removed'') \<and>
        redacted i dec) \<and>
     (detectorMode cfg \<noteq> ''ai-probe'' \<and> det_plausible d \<and> js_ge (score (det_match d)) reviewT \<and>
      js_lt (score (det_match d)) autoT \<longrightarrow>
        dec_action dec = ''review'' \<and> no_redaction dec) \<and>
     (detectorMode cfg = ''ai-probe'' \<and> det_plausible d \<and> js_ge (score (det_match d)) reviewT \<longrightarrow>
        dec_action dec = ''review'' \<and> no_redaction dec) \<and>
     (\<not> det_plausible d \<or> \<not> js_ge (score (det_match d)) reviewT \<longrightarrow>
        dec_action dec = ''none'' \<and> no_redaction dec)"
proof -
  let ?s = "score (det_match d)"
  have up: "js_ge ?s reviewT" if "js_ge ?s autoT"
    using that thr by (auto simp: js_ge_def intro: js_le_trans_lt)
  have dn: "\<not> js_ge ?s autoT" if "js_lt ?s autoT"
    using that by (simp add: js_ge_def js_lt_not_le)
  show ?thesis
  proof (cases "detectorMode cfg \<noteq> ''ai-probe'' \<and> det_plausible d \<and> js_ge ?s autoT")
    case True
    with detect_page_plausible_bbox[OF det] obtain b where b: "bboxPx (det_match d) = Some b"
      by auto
    from True have a: "detectorMode cfg \<noteq> ''ai-probe''" "det_plausible d" "js_ge ?s autoT"
      by simp_all
    from decide_page_auto[OF a b reg lib, of reviewT i] True up dn show ?thesis
      by auto
  next
    case False
    then have f: "detectorMode cfg = ''ai-probe'' \<or> \<not> det_plausible d \<or> \<not> js_ge ?s autoT"
      by blast
    from decide_page_no_redaction[OF f reg lib, of reviewT i] False up dn show ?thesis
      by auto
  qed
qed

lemma vision_good': "detectLogoWithVision example_env \<lparr> resp_ok = True, resp_status = 200, resp_body = body_good \<rparr> = Inr good_probe"
  by (simp add: vision_good good_probe_def)

lemma round_half: "Math_round (Fin (of_int n)) = Fin (of_int n)"
  by simp

lemma detect_ai_example: "detect_ai example_env ai_page = Inr ai_detection"
proof -
  have r: "js_mul (Fin 0.5) (fin_nat 1000) = Fin (of_int 500)" "js_mul (Fin 0.8) (fin_nat 1000) = Fin (of_int 800)"
     "js_mul (Fin 0.2) (fin_nat 1000) = Fin (of_int 200)" "js_mul (Fin 0.1) (fin_nat 1000) = Fin (of_int 100)"
    by (simp_all add: fin_nat_def)
  show ?thesis
    unfolding detect_ai_def ai_page_def page_input.simps sum.case vision_good' good_probe_def
      candidate.simps Let_def fin_box_def box.simps if_True option.case r round_half
    by (simp add: ai_detection_def good_probe_def fin_box_def isFooterLogoBboxValid_def
        isFooterStripCandidate_def isBboxPlausible_def Math_max_def js_ge_def js_gt_def fin_nat_def)
qed

lemma detect_page_cut: "detect_page cut_config example_env [] ai_page = Inr ai_detection"
  by (simp add: detect_page_def cut_config_def useAiDetector_def detect_ai_example)

lemma detect_page_probe: "detect_page probe_config example_env [] ai_page = Inr ai_detection"
  by (simp add: detect_page_def probe_config_def cut_config_def useAiDetector_def detect_ai_example)

lemma example_draw_accepts: "\<forall>c. finite_box (op_rect c) \<longrightarrow> example_draw c = None"
  by (simp add: example_draw_def)

lemma regular_example: "regular_page cut_config example_profile (Some (800, 100)) ai_page ai_detection"
  by (simp add: regular_page_def ai_page_def ai_detection_def fin_size_def fin_box_def finite_box_def)

lemma decide_probe:
  "decide_page probe_config example_profile None example_draw default_auto default_review 0 ai_page
     ai_detection =
   Inr \<lparr> dec_action = ''review'', dec_pdfRect = None, dec_debugPreviewRect = None, dec_draws = [] \<rparr>"
  by (simp add: decide_page_def probe_config_def cut_config_def ai_detection_def js_ge_def Let_def
      default_auto_def default_review_def)

text \<open>
  In the mode \<open>ai-cut\<close> without the debug preview, the page \<open>ai_page\<close> is redacted: the box
  of the classifier, mapped to the page, is filled with the sampled colour.
\<close>

lemma decide_example:
  assumes "detectorMode cfg = ''ai-cut''" "debugDrawBoxes cfg = False"
  shows "decide_page cfg example_profile (Some (800, 100)) example_draw default_auto default_review i
     ai_page ai_detection =
   Inr \<lparr> dec_action = ''removed'', dec_pdfRect = Some (fin_box 250 50 100 50), dec_debugPreviewRect = None,
         dec_draws = [FillRectangle i (fin_box 250 50 100 50) white] \<rparr>"
proof -
  have r: "imageBboxToPdfRect (fin_box 500 800 200 100) (fin_size 1000 1000) (fin_size 500 500) = fin_box 250 50 100 50"
    by (simp add: imageBboxToPdfRect_Fin)
  have a: "example_draw (FillRectangle i (fin_box 250 50 100 50) white) = None"
    by (simp add: example_draw_def finite_box_def fin_box_def)
  have g: "js_ge (Fin 0.9) default_auto"
    by (simp add: js_ge_def default_auto_def)
  have p: "\<lparr> size_width = fin_nat (pg_width ai_page), size_height = fin_nat (pg_height ai_page) \<rparr> =
           fin_size 1000 1000" "pg_size ai_page = fin_size 500 500"
    "pg_fill ai_page b = Inr white" for b
    by (simp_all add: ai_page_def fin_size_def fin_nat_def)
  have d: "det_match ai_detection = \<lparr> score = Fin 0.9, bboxPx = Some (fin_box 500 800 200 100),
                     matchedReference = None \<rparr>" "det_plausible ai_detection"
    "\<not> det_wideFooterStrip ai_detection"
    by (simp_all add: ai_detection_def)
  have "redaction_of cfg example_profile (Some (800, 100)) example_draw i ai_page ai_detection =
          Inr (''removed'', Some (fin_box 250 50 100 50), [FillRectangle i (fin_box 250 50 100 50) white])"
    unfolding redaction_of_def Let_def d(1) p
    using assms d(3) by (simp add: r a)
  then show ?thesis
    unfolding decide_page_def Let_def d(1)
    using assms g d(2) by simp
qed

lemma decide_cut_i:
  "decide_page cut_config example_profile (Some (800, 100)) example_draw default_auto default_review i
     ai_page ai_detection =
   Inr \<lparr> dec_action = ''removed'', dec_pdfRect = Some (fin_box 250 50 100 50), dec_debugPreviewRect = None,
         dec_draws = [FillRectangle i (fin_box 250 50 100 50) white] \<rparr>"
  by (rule decide_example) (simp_all add: cut_config_def)

text \<open>
  With the footer banner forced in the mode \<open>ai-cut\<close>, the footer of \<open>small_page\<close> is replaced:
  the stable footer rectangle of the 500 by 500 page is filled with the footer colour,
  and the banner of 800 by 100 pixels is fitted into it.
\<close>

lemma band_small: "detectFooterBand [] (Suc 0) (Suc 0) 3 = Some None"
  by (simp add: detectFooterBand_def scan_bands.simps rowPurpleRatio_def purple_at_def u8_get_def
      nullish_or_def isPurplePixel_def)

lemma detect_forced_small: "detect_page forced_config example_env [] small_page = Inr forced_detection"
  by (simp add: detect_page_def forced_config_def cut_config_def detect_forced_def footer_band_of_def
      small_page_def ai_page_def band_small forced_detection_def fin_box_def fin_int_def fin_nat_def
      Math_max_def Let_def)

lemma regular_small:
  "regular_page forced_config example_profile (Some (800, 100)) small_page forced_detection"
  by (simp add: regular_page_def forced_config_def cut_config_def small_page_def ai_page_def
      forced_detection_def fin_size_def fin_box_def finite_box_def example_profile_def)

lemma decide_small:
  "decide_page forced_config example_profile (Some (800, 100)) example_draw default_auto default_review 0
     small_page forced_detection =
   Inr \<lparr> dec_action = ''replaced_footer_banner'', dec_pdfRect = Some (fin_box 0 0 500 56),
         dec_debugPreviewRect = None,
         dec_draws = [FillRectangle 0 (fin_box 0 0 500 56) SOLID_FOOTER_COLOR,
                      DrawImage 0 (fin_box 26 0 448 56)] \<rparr>"
  by (simp add: decide_page_def redaction_of_def drawBannerFitted_def Let_def forced_config_def
      cut_config_def small_page_def ai_page_def forced_detection_def default_auto_def js_ge_def
      getStableFooterPdfRect_def example_profile_def fin_size_def fin_box_def fin_nat_def js_gt_def
      js_sub_def example_draw_def finite_box_def)

theorem decide_page_threshold_policy_witness:
  "decide_page cut_config example_profile (Some (800, 100)) example_draw default_auto default_review 0
     ai_page ai_detection =
     Inr \<lparr> dec_action = ''removed'', dec_pdfRect = Some (fin_box 250 50 100 50),
           dec_debugPreviewRect = None,
           dec_draws = [FillRectangle 0 (fin_box 250 50 100 50) white] \<rparr> \<and>
   redacted 0 \<lparr> dec_action = ''removed'', dec_pdfRect = Some (fin_box 250 50 100 50),
                dec_debugPreviewRect = None,
                dec_draws = [FillRectangle 0 (fin_box 250 50 100 50) white] \<rparr> \<and>
   decide_page forced_config example_profile (Some (800, 100)) example_draw default_auto default_review 0
     small_page forced_detection =
     Inr \<lparr> dec_action = ''replaced_footer_banner'', dec_pdfRect = Some (fin_box 0 0 500 56),
           dec_debugPreviewRect = None,
           dec_draws = [FillRectangle 0 (fin_box 0 0 500 56) SOLID_FOOTER_COLOR,
                        DrawImage 0 (fin_box 26 0 448 56)] \<rparr> \<and>
   redacted 0 \<lparr> dec_action = ''replaced_footer_banner'', dec_pdfRect = Some (fin_box 0 0 500 56),
                dec_debugPreviewRect = None,
                dec_draws = [FillRectangle 0 (fin_box 0 0 500 56) SOLID_FOOTER_COLOR,
                             DrawImage 0 (fin_box 26 0 448 56)] \<rparr>"
proof -
  have thr: "js_lt default_review default_auto" by (simp add: default_auto_def default_review_def)
  from decide_page_threshold_policy[OF detect_forced_small regular_small example_draw_accepts thr, of 0]
  obtain dec' where
    d': "decide_page forced_config example_profile (Some (800, 100)) example_draw default_auto
          default_review 0 small_page forced_detection = Inr dec'"
    and a': "detectorMode forced_config \<noteq> ''ai-probe'' \<and> det_plausible forced_detection \<and>
            js_ge (score (det_match forced_detection)) default_auto \<longrightarrow>
            dec_action dec' = (if det_wideFooterStrip forced_detection then ''replaced_footer_banner''
                              else ''removed'') \<and> redacted 0 dec'"
    by blast
  have "detectorMode forced_config \<noteq> ''ai-probe'' \<and> det_plausible forced_detection \<and>
            js_ge (score (det_match forced_detection)) default_auto"
    by (simp add: forced_config_def cut_config_def forced_detection_def js_ge_def default_auto_def)
  with a' have r': "redacted 0 dec'" by blast
  from d' have e': "dec' = \<lparr> dec_action = ''replaced_footer_banner'', dec_pdfRect = Some (fin_box 0 0 500 56),
           dec_debugPreviewRect = None,
           dec_draws = [FillRectangle 0 (fin_box 0 0 500 56) SOLID_FOOTER_COLOR,
                        DrawImage 0 (fin_box 26 0 448 56)] \<rparr>"
    unfolding decide_small by simp
  from decide_page_threshold_policy[OF detect_page_cut regular_example example_draw_accepts thr, of 0]
  obtain dec where
    d: "decide_page cut_config example_profile (Some (800, 100)) example_draw default_auto
          default_review 0 ai_page ai_detection = Inr dec"
    and a: "detectorMode cut_config \<noteq> ''ai-probe'' \<and> det_plausible ai_detection \<and>
            js_ge (score (det_match ai_detection)) default_auto \<longrightarrow>
            dec_action dec = (if det_wideFooterStrip ai_detection then ''replaced_footer_banner''
                              else ''removed'') \<and> redacted 0 dec"
    by blast
  have "detectorMode cut_config \<noteq> ''ai-probe'' \<and> det_plausible ai_detection \<and>
            js_ge (score (det_match ai_detection)) default_auto"
    by (simp add: cut_config_def ai_detection_def js_ge_def default_auto_def)
  with a have r: "redacted 0 dec" by blast
  from d have "dec = \<lparr> dec_action = ''removed'', dec_pdfRect = Some (fin_box 250 50 100 50),
           dec_debugPreviewRect = None,
           dec_draws = [FillRectangle 0 (fin_box 250 50 100 50) white] \<rparr>"
    unfolding decide_cut_i by simp
  with r d r' d' e' show ?thesis by simp
qed

text \<open>
  C1, as the code has it. The first branch of the decision is guarded by
  \<open>config.detectorMode !== "ai-probe"\<close>: in that mode nothing is ever redacted. On the
  page \<open>ai_page\<close> the classifier finds the logo with the confidence 0.9, the box passes
  the footer and plausibility tests, and the thresholds are 0.62 and 0.48; the action
  is \<open>review\<close> and nothing is painted, where the claim has \<open>removed\<close> and a redaction.
\<close>

theorem decide_page_ai_probe_counterexample:
  "detect_page probe_config example_env [] ai_page = Inr ai_detection \<and>
   det_plausible ai_detection \<and> js_ge (score (det_match ai_detection)) default_auto \<and>
   js_lt default_review default_auto \<and>
   decide_page probe_config example_profile None example_draw default_auto default_review 0 ai_page
     ai_detection =
     Inr \<lparr> dec_action = ''review'', dec_pdfRect = None, dec_debugPreviewRect = None, dec_draws = [] \<rparr>"
  using detect_page_probe decide_probe
  by (simp add: ai_detection_def js_ge_def default_auto_def default_review_def)

text \<open>
  Where the box of the match has a coordinate that is NaN, as after a reply whose
  \<open>bbox.x\<close> is not a number, the rectangle handed to the PDF library has a NaN coordinate,
  and a library that rejects it ends the job with its error.
\<close>

lemma decide_page_nan_box:
  "decide_page cut_config example_profile (Some (800, 100)) example_draw default_auto default_review 0
     ai_page
     (ai_detection \<lparr> det_match := \<lparr> score = Fin 0.9,
                                     bboxPx = Some \<lparr> box_x = NaN, box_y = Fin 800, box_width = Fin 200,
                                                     box_height = Fin 100 \<rparr>,
                                     matchedReference = None \<rparr> \<rparr>) =
   Inl (LibraryFailure ''NaN'')"
  by (simp add: decide_page_def redaction_of_def cut_config_def ai_detection_def js_ge_def Let_def
      ai_page_def fin_nat_def fin_size_def default_auto_def default_review_def imageBboxToPdfRect_def
      clamp_def Math_min_def Math_max_def js_sub_def example_draw_def finite_box_def)

subsection \<open>The page loop\<close>

lemma decide_page_ops:
  assumes "decide_page cfg fp banner draw autoT reviewT i pg d = Inr dec"
  shows "\<forall>c \<in> set (dec_draws dec). op_page c = i"
proof -
  have b: "\<forall>c \<in> set painted. op_page c = i"
    if "drawBannerFitted draw i img r fp = Inr painted" for img r painted
    using paint_Inr[OF that[unfolded drawBannerFitted_def Let_def]] by auto
  have f: "\<forall>c \<in> set painted. op_page c = i"
    if "paint draw [FillRectangle i r col] = Inr painted" for r col painted
    using paint_Inr[OF that] by simp
  have o: "\<forall>c \<in> set painted. op_page c = i"
    if "paint draw [OutlineRectangle i r] = Inr painted" for r painted
    using paint_Inr[OF that] by simp
  from assms show ?thesis
    unfolding decide_page_def redaction_of_def Let_def
    by (auto split: if_splits option.splits sum.splits prod.splits dest!: b f o)
qed

lemma process_page_facts:
  assumes "process_page cfg env fp banner autoT reviewT templates i = Inr (a, ds)"
  shows "pageNumber a = i + 1 \<and> (\<forall>c \<in> set ds. op_page c = i)"
proof -
  from assms obtain pg d dec where
    "decide_page cfg fp banner (je_draw env) autoT reviewT i pg d = Inr dec"
    "pageNumber a = i + 1" "ds = dec_draws dec"
    by (auto simp: process_page_def split: sum.splits)
  with decide_page_ops show ?thesis by blast
qed

lemma process_page_facts_all:
  "\<forall>i a ds. process_page cfg env fp banner autoT reviewT templates i = Inr (a, ds) \<longrightarrow>
      pageNumber a = i + 1 \<and> (\<forall>c \<in> set ds. op_page c = i)"
  using process_page_facts by blast

lemma page_loop_facts:
  assumes body: "\<forall>i a ds. body i = Inr (a, ds) \<longrightarrow> pageNumber a = i + 1 \<and> (\<forall>c \<in> set ds. op_page c = i)"
    and "page_loop body indices acc = Inr res"
  shows "map pageNumber (fst res) = map pageNumber (fst acc) @ map Suc indices \<and>
         (\<forall>c \<in> set (snd res). c \<in> set (snd acc) \<or> op_page c \<in> set indices)"
  using assms(2)
proof (induction indices arbitrary: acc)
  case Nil
  then show ?case by simp
next
  case (Cons i indices)
  from Cons.prems obtain a ds where b: "body i = Inr (a, ds)"
    and l: "page_loop body indices (fst acc @ [a], snd acc @ ds) = Inr res"
    by (auto split: sum.splits prod.splits)
  from body b have a: "pageNumber a = Suc i" "\<forall>c \<in> set ds. op_page c = i" by auto
  from Cons.IH[OF l] a show ?case by auto
qed

subsection \<open>The page cap\<close>

lemma Math_min_commute: "Math_min a b = Math_min b a"
  by (cases a; cases b) (auto simp: Math_min_def)

lemma pages_to_process_spec:
  "pages_to_process cfg counts = page_cap_spec cfg (min (fst counts) (snd counts))"
  by (simp add: pages_to_process_def page_cap_spec_def Let_def Math_min_commute)

lemma Math_min_not_above: "\<not> js_lt n x \<Longrightarrow> \<not> js_lt n (Math_min x y)"
  by (cases n; cases x; cases y) (auto simp: Math_min_def)

text \<open>\<open>pagesToProcess\<close> is never above the page count of the document.\<close>

lemma pages_to_process_bound:
  "\<not> js_lt (fin_nat (min (fst counts) (snd counts))) (pages_to_process cfg counts)"
proof -
  have "\<not> js_lt (fin_nat n) (fin_nat n)" for n by (simp add: fin_nat_def)
  then show ?thesis
    by (simp add: pages_to_process_def Let_def Math_min_not_above)
qed

lemma takeWhile_prefix: "\<exists>m \<le> k. takeWhile P [0..<k] = [0..<m] \<and> (m < k \<longrightarrow> \<not> P m)"
proof (induction k)
  case 0
  then show ?case by simp
next
  case (Suc k)
  then obtain m where m: "m \<le> k" "takeWhile P [0..<k] = [0..<m]" "m < k \<longrightarrow> \<not> P m" by blast
  show ?case
  proof (cases "m < k")
    case True
    with m(2) have "m \<in> set [0..<k]" "\<not> P m" using m(3) by simp_all
    then have "takeWhile P ([0..<k] @ [k]) = takeWhile P [0..<k]"
      by (intro takeWhile_append1) auto
    then show ?thesis using m True by (intro exI[of _ m]) simp
  next
    case False
    with m(1) have mk: "m = k" by simp
    then have "\<forall>i \<in> set [0..<k]. P i"
      using m(2) by (metis set_takeWhileD takeWhile_eq_all_conv)
    then have t: "takeWhile P ([0..<k] @ [k]) = [0..<k] @ takeWhile P [k]"
      by (intro takeWhile_append2) simp
    show ?thesis
    proof (cases "P k")
      case True
      then show ?thesis using t by (intro exI[of _ "Suc k"]) simp
    next
      case False
      then show ?thesis using t by (intro exI[of _ k]) simp
    qed
  qed
qed

lemma loop_indices_prefix: "\<exists>m. loop_indices p n = [0..<m]"
  using takeWhile_prefix[of "Suc n" "\<lambda>i. js_lt (fin_nat i) p"]
  unfolding loop_indices_def by blast

lemma loop_indices_whole:
  assumes "\<not> js_lt (fin_nat n) (fin_int k)"
  shows "loop_indices (fin_int k) n = [0..<nat k]"
proof -
  from assms have kn: "k \<le> int n" by (simp add: fin_nat_def fin_int_def)
  have P: "js_lt (fin_nat i) (fin_int k) \<longleftrightarrow> i < nat k" for i
    by (auto simp: fin_nat_def fin_int_def)
  from takeWhile_prefix[of "Suc n" "\<lambda>i. js_lt (fin_nat i) (fin_int k)"] obtain m where
    m: "m \<le> Suc n" "loop_indices (fin_int k) n = [0..<m]" "m < Suc n \<longrightarrow> \<not> m < nat k"
    unfolding loop_indices_def P by blast
  have "\<forall>i \<in> set (loop_indices (fin_int k) n). i < nat k"
    unfolding loop_indices_def P by (auto dest: set_takeWhileD)
  then have "\<forall>i < m. i < nat k" unfolding m(2) by simp
  then have "m \<le> nat k" by (metis less_irrefl not_le_imp_less)
  moreover have "nat k \<le> m" using m(1,3) kn by (cases "m < Suc n") auto
  ultimately show ?thesis using m(2) by simp
qed

lemma processPdf_Inr:
  assumes "processPdf cfg st env = Inr out"
  obtains counts res formatKey formatProfile banner autoT reviewT templates where
    "je_document env = Inr counts"
    "page_loop (process_page cfg env formatProfile banner autoT reviewT templates)
        (loop_indices (pages_to_process cfg counts) (min (fst counts) (snd counts))) ([], []) = Inr res"
    "out = finish_job cfg st env formatKey formatProfile autoT reviewT counts res"
  using assms unfolding processPdf_def Let_def
  by (auto split: sum.splits option.splits)

lemma map_Suc_from_zero: "map Suc [0..<n] = [1..<n + 1]"
  by (simp add: map_Suc_upt)

lemma processPdf_pages:
  assumes "processPdf cfg st env = Inr out" and "je_document env = Inr counts"
  shows "map pageNumber (ad_pages (jo_audit out)) =
           map Suc (loop_indices (pages_to_process cfg counts) (min (fst counts) (snd counts)))"
    and "\<forall>c \<in> set (jo_draws out).
            op_page c \<in> set (loop_indices (pages_to_process cfg counts) (min (fst counts) (snd counts)))"
    and "totalPages (ad_summary (jo_audit out)) = pages_to_process cfg counts"
    and "pagesTotal (jo_result out) = pages_to_process cfg counts"
    and "pagesProcessed (jo_result out) = pages_to_process cfg counts"
    and "totalPagesInPdf (ad_summary (jo_audit out)) = min (fst counts) (snd counts)"
proof -
  from assms(1) obtain counts' res formatKey formatProfile banner autoT reviewT templates where
    d: "je_document env = Inr counts'"
    and l: "page_loop (process_page cfg env formatProfile banner autoT reviewT templates)
        (loop_indices (pages_to_process cfg counts') (min (fst counts') (snd counts'))) ([], []) = Inr res"
    and o: "out = finish_job cfg st env formatKey formatProfile autoT reviewT counts' res"
    by (rule processPdf_Inr)
  from d assms(2) have c: "counts' = counts" by simp
  note f = page_loop_facts[OF process_page_facts_all l[unfolded c]]
  from f show "map pageNumber (ad_pages (jo_audit out)) =
           map Suc (loop_indices (pages_to_process cfg counts) (min (fst counts) (snd counts)))"
    unfolding o c by (simp add: finish_job_def Let_def)
  from f show "\<forall>c \<in> set (jo_draws out).
            op_page c \<in> set (loop_indices (pages_to_process cfg counts) (min (fst counts) (snd counts)))"
    unfolding o c by (simp add: finish_job_def Let_def)
  show "totalPages (ad_summary (jo_audit out)) = pages_to_process cfg counts"
    "pagesTotal (jo_result out) = pages_to_process cfg counts"
    "pagesProcessed (jo_result out) = pages_to_process cfg counts"
    "totalPagesInPdf (ad_summary (jo_audit out)) = min (fst counts) (snd counts)"
    unfolding o c by (simp_all add: finish_job_def Let_def)
qed

subsection \<open>A job on the classifier path\<close>

lemma image_names: "is_image_name ''logo.png''" "\<not> is_image_name ''notes.txt''"
  by (simp_all add: is_image_name_def ends_with_ci_def lower_char_def)

lemma audit_good_probe:
  "audit_of_probe good_probe =
     \<lparr> ap_found = True, ap_confidence = Fin 0.9, ap_bbox = Some (fin_box 0.5 0.8 0.2 0.1),
       ap_rawText = Some reply_good \<rparr>"
  by (simp add: audit_of_probe_def good_probe_def reply_good_def)

text \<open>
  In the mode \<open>ai-cut\<close>, whatever the page limits are, each page of \<open>example_job\<close> is
  redacted alike.
\<close>

lemma process_page_cut:
  assumes "detectorMode cfg = ''ai-cut''" "forceFooterBanner cfg = False" "debugDrawBoxes cfg = False"
  shows "process_page cfg example_job example_profile (Some (800, 100)) default_auto default_review [] i =
     Inr (example_audit i, [FillRectangle i (fin_box 250 50 100 50) white])"
proof -
  have p: "je_pages example_job i = Inr ai_page" "je_js example_job = example_env"
    "je_draw example_job = example_draw"
    by (simp_all add: example_job_def)
  have dp: "detect_page cfg example_env [] ai_page = Inr ai_detection"
    using assms by (simp add: detect_page_def useAiDetector_def detect_ai_example)
  show ?thesis
    unfolding process_page_def p sum.case dp decide_example[OF assms(1,3)]
    by (simp add: example_audit_def ai_detection_def audit_good_probe)
qed

lemma processPdf_example:
  assumes m: "detectorMode cfg = ''ai-cut''" "forceFooterBanner cfg = False" "debugDrawBoxes cfg = False"
    and c: "formatProfiles cfg ''style_a'' = Some example_profile"
      "matchAutoThreshold cfg = default_auto" "matchReviewThreshold cfg = default_review"
    and i: "loop_indices (pages_to_process cfg (3, 3)) 3 = [0, 1]"
  shows "processPdf cfg no_settings example_job =
          Inr (finish_job cfg no_settings example_job ''style_a'' example_profile
                 default_auto default_review (3, 3)
                 ([example_audit 0, example_audit 1],
                  [FillRectangle 0 (fin_box 250 50 100 50) white,
                   FillRectangle 1 (fin_box 250 50 100 50) white]))"
proof -
  have u: "useAiDetector cfg" using m(1) by (simp add: useAiDetector_def)
  have r: "loadLogoReferenceImages (je_refs example_job) = Inr [(''logo.png'', ''png'')]"
    by (simp add: loadLogoReferenceImages_def example_job_def one_image_dir_def image_names)
  have l: "page_loop (process_page cfg example_job example_profile (Some (800, 100))
                        default_auto default_review []) [0, 1] ([], [])
      = Inr ([example_audit 0, example_audit 1],
             [FillRectangle 0 (fin_box 250 50 100 50) white, FillRectangle 1 (fin_box 250 50 100 50) white])"
    unfolding page_loop.simps process_page_cut[OF m] sum.case prod.case fst_conv snd_conv append.simps
    by (rule refl)
  have e: "je_document example_job = Inr (3, 3)" "je_banner example_job = Some (800, 100)"
    "je_written example_job = None"
    by (simp_all add: example_job_def)
  have s: "set_formatKey no_settings = None" "set_autoThreshold no_settings = None"
    "set_reviewThreshold no_settings = None"
    by (simp_all add: no_settings_def)
  have main: "page_loop (process_page cfg example_job example_profile (Some (800, 100))
                        default_auto default_review [])
                 (loop_indices (pages_to_process cfg (3, 3)) 3) ([], [])
      = Inr ([example_audit 0, example_audit 1],
             [FillRectangle 0 (fin_box 250 50 100 50) white, FillRectangle 1 (fin_box 250 50 100 50) white])"
    unfolding i by (rule l)
  show ?thesis
    unfolding processPdf_def Let_def
    by (simp add: u r e s c m(1) main)
qed

text \<open>
  C9, as the code has it. The limits are read with \<open>Number(process.env...)\<close> and nothing
  rounds them. With \<open>aiPageLimit = 1.5\<close> on a document of three pages the cap is 1.5, which
  is what \<open>pagesTotal\<close>, \<open>pagesProcessed\<close> and \<open>summary.totalPages\<close> report; the loop runs
  while \<open>i < 1.5\<close>, so the pages 1 and 2 are both processed, audited and redacted.
\<close>

theorem processPdf_fraction_limit_counterexample:
  "(case processPdf fraction_config no_settings example_job of
      Inl f \<Rightarrow> False
    | Inr out \<Rightarrow>
        pagesTotal (jo_result out) = Fin 1.5 \<and>
        pagesProcessed (jo_result out) = Fin 1.5 \<and>
        totalPages (ad_summary (jo_audit out)) = Fin 1.5 \<and>
        map pageNumber (ad_pages (jo_audit out)) = [1, 2] \<and>
        jo_draws out = [FillRectangle 0 (fin_box 250 50 100 50) white,
                        FillRectangle 1 (fin_box 250 50 100 50) white])"
proof -
  have n: "pages_to_process fraction_config (3, 3) = Fin 1.5"
    by (simp add: pages_to_process_def fraction_config_def cut_config_def fin_nat_def Math_min_def
        js_gt_def)
  have i: "loop_indices (pages_to_process fraction_config (3, 3)) 3 = [0, 1]"
    unfolding n by (simp add: loop_indices_def fin_nat_def upt_rec)
  have "processPdf fraction_config no_settings example_job =
          Inr (finish_job fraction_config no_settings example_job ''style_a'' example_profile
                 default_auto default_review (3, 3)
                 ([example_audit 0, example_audit 1],
                  [FillRectangle 0 (fin_box 250 50 100 50) white,
                   FillRectangle 1 (fin_box 250 50 100 50) white]))"
    by (rule processPdf_example[OF _ _ _ _ _ _ i]) (simp_all add: fraction_config_def cut_config_def)
  then show ?thesis
    by (simp add: finish_job_def Let_def n example_audit_def)
qed

text \<open>
  C9 (amended): on every job that ends well, with \<open>cap\<close> the least of the page count of
  the document (the smaller of the two counts the libraries report), \<open>maxPagesPerJob\<close>,
  \<open>aiMaxPagesPerJob\<close>, and \<open>aiPageLimit\<close> when that is positive: \<open>summary.totalPages\<close>,
  \<open>pagesTotal\<close> and \<open>pagesProcessed\<close> are \<open>cap\<close>, and \<open>summary.totalPagesInPdf\<close> is the page
  count of the document; and whenever \<open>cap\<close> is a whole number, as it is when the three
  limits are whole numbers, the audit records are those of the pages 1 to \<open>cap\<close> in this
  order, and every operation painted on the document is on a page before the cap.
\<close>

theorem processPdf_page_cap:
  assumes "processPdf cfg st env = Inr out" and "je_document env = Inr counts"
  shows "(let pageCount = min (fst counts) (snd counts); cap = page_cap_spec cfg pageCount in
          totalPages (ad_summary (jo_audit out)) = cap \<and>
          pagesTotal (jo_result out) = cap \<and>
          pagesProcessed (jo_result out) = cap \<and>
          totalPagesInPdf (ad_summary (jo_audit out)) = pageCount \<and>
          (\<forall>k. cap = fin_int k \<longrightarrow>
             map pageNumber (ad_pages (jo_audit out)) = [1..<nat k + 1] \<and>
             list_all (\<lambda>c. int (op_page c) < k) (jo_draws out)))"
proof -
  let ?n = "min (fst counts) (snd counts)"
  note p = processPdf_pages[OF assms]
  have w: "map pageNumber (ad_pages (jo_audit out)) = [1..<nat k + 1] \<and>
           list_all (\<lambda>c. int (op_page c) < k) (jo_draws out)"
    if k: "pages_to_process cfg counts = fin_int k" for k
  proof -
    have "\<not> js_lt (fin_nat ?n) (fin_int k)"
      using pages_to_process_bound[of counts cfg] by (simp add: k)
    then have i: "loop_indices (pages_to_process cfg counts) ?n = [0..<nat k]"
      unfolding k by (rule loop_indices_whole)
    from p(1,2) have "map pageNumber (ad_pages (jo_audit out)) = map Suc [0..<nat k]"
      and "\<forall>c \<in> set (jo_draws out). op_page c \<in> set [0..<nat k]"
      unfolding i by simp_all
    then show ?thesis by (auto simp: map_Suc_from_zero list_all_iff)
  qed
  show ?thesis
    unfolding Let_def pages_to_process_spec[symmetric] using p(3-6) w by simp
qed

lemma is_removed_eq:
  "is_removed = (\<lambda>p. pa_action p = ''removed'' \<or> pa_action p = ''removed_footer_strip'' \<or>
                      pa_action p = ''replaced_footer_banner'')"
  by (rule ext) (simp add: is_removed_def)

text \<open>
  C8: on every job that ends well, the removed count of the summary is the number of
  audit records whose action is \<open>removed\<close>, \<open>removed_footer_strip\<close> or
  \<open>replaced_footer_banner\<close>, the review count the number of those whose action is
  \<open>review\<close>, and \<open>none\<close> the rest; the returned counts are the same; \<open>hasReview\<close> holds, and
  \<open>statusHint\<close> is \<open>needs_review\<close>, exactly when the review count is positive or the removed
  count is zero; and the audit records are those of the pages 1, 2 and so on, one each,
  in this order, as many as \<open>pagesProcessed\<close> when that is a whole number.
\<close>

theorem processPdf_summary_counts:
  assumes "processPdf cfg st env = Inr out"
  shows "(let pages = ad_pages (jo_audit out); s = ad_summary (jo_audit out); r = jo_result out in
           sum_removed s = length (filter (\<lambda>p. pa_action p = ''removed'' \<or> pa_action p = ''removed_footer_strip'' \<or>
                                      pa_action p = ''replaced_footer_banner'') pages) \<and>
           sum_review s = length (filter (\<lambda>p. pa_action p = ''review'') pages) \<and>
           sum_none s = int (length pages) - int (sum_removed s) - int (sum_review s) \<and>
           removedCount r = sum_removed s \<and> reviewCount r = sum_review s \<and>
           (hasReview r \<longleftrightarrow> 0 < sum_review s \<or> sum_removed s = 0) \<and>
           (statusHint s = ''needs_review'' \<longleftrightarrow> 0 < sum_review s \<or> sum_removed s = 0) \<and>
           map pageNumber pages = [1..<length pages + 1] \<and>
           (\<forall>k. pagesProcessed r = fin_int k \<longrightarrow> map pageNumber pages = [1..<nat k + 1]))"
proof -
  from assms(1) obtain counts res formatKey formatProfile banner autoT reviewT templates where
    d: "je_document env = Inr counts"
    and l: "page_loop (process_page cfg env formatProfile banner autoT reviewT templates)
        (loop_indices (pages_to_process cfg counts) (min (fst counts) (snd counts))) ([], []) = Inr res"
    and o: "out = finish_job cfg st env formatKey formatProfile autoT reviewT counts res"
    by (rule processPdf_Inr)
  let ?n = "min (fst counts) (snd counts)"
  note p = processPdf_pages[OF assms d]
  obtain m where m: "loop_indices (pages_to_process cfg counts) ?n = [0..<m]"
    using loop_indices_prefix by blast
  from p(1) have pn: "map pageNumber (ad_pages (jo_audit out)) = [1..<m + 1]"
    unfolding m by (simp add: map_Suc_from_zero)
  then have "length (map pageNumber (ad_pages (jo_audit out))) = length [1..<m + 1]" by simp
  then have "length (ad_pages (jo_audit out)) = m" by simp
  with pn have order: "map pageNumber (ad_pages (jo_audit out)) = [1..<length (ad_pages (jo_audit out)) + 1]"
    by simp
  have whole: "map pageNumber (ad_pages (jo_audit out)) = [1..<nat k + 1]"
    if k: "pagesProcessed (jo_result out) = fin_int k" for k
  proof -
    from p(5) k have k': "pages_to_process cfg counts = fin_int k" by simp
    have "\<not> js_lt (fin_nat ?n) (fin_int k)"
      using pages_to_process_bound[of counts cfg] by (simp add: k')
    then have "loop_indices (pages_to_process cfg counts) ?n = [0..<nat k]"
      unfolding k' by (rule loop_indices_whole)
    with p(1) show ?thesis by (simp add: map_Suc_from_zero)
  qed
  have counts: "sum_removed (ad_summary (jo_audit out)) =
           length (filter is_removed (ad_pages (jo_audit out)))"
         "sum_review (ad_summary (jo_audit out)) =
           length (filter (\<lambda>p. pa_action p = ''review'') (ad_pages (jo_audit out)))"
         "sum_none (ad_summary (jo_audit out)) =
           int (length (ad_pages (jo_audit out))) - int (sum_removed (ad_summary (jo_audit out)))
             - int (sum_review (ad_summary (jo_audit out)))"
         "removedCount (jo_result out) = sum_removed (ad_summary (jo_audit out))"
         "reviewCount (jo_result out) = sum_review (ad_summary (jo_audit out))"
         "hasReview (jo_result out) \<longleftrightarrow>
            0 < sum_review (ad_summary (jo_audit out)) \<or> sum_removed (ad_summary (jo_audit out)) = 0"
         "statusHint (ad_summary (jo_audit out)) = ''needs_review'' \<longleftrightarrow>
            0 < sum_review (ad_summary (jo_audit out)) \<or> sum_removed (ad_summary (jo_audit out)) = 0"
    unfolding o by (simp_all add: finish_job_def Let_def)
  show ?thesis
    unfolding Let_def is_removed_eq[symmetric]
    using counts order whole by blast
qed

lemma processPdf_cut: "processPdf cut_config no_settings example_job = Inr example_outcome"
proof -
  have n: "pages_to_process cut_config (3, 3) = Fin 2"
    by (simp add: pages_to_process_def cut_config_def fin_nat_def Math_min_def js_gt_def)
  have i: "loop_indices (pages_to_process cut_config (3, 3)) 3 = [0, 1]"
    unfolding n by (simp add: loop_indices_def fin_nat_def upt_rec)
  have s: "set_mode no_settings = None" by (simp add: no_settings_def)
  have "processPdf cut_config no_settings example_job =
          Inr (finish_job cut_config no_settings example_job ''style_a'' example_profile
                 default_auto default_review (3, 3)
                 ([example_audit 0, example_audit 1],
                  [FillRectangle 0 (fin_box 250 50 100 50) white,
                   FillRectangle 1 (fin_box 250 50 100 50) white]))"
    by (rule processPdf_example[OF _ _ _ _ _ _ i]) (simp_all add: cut_config_def)
  also have "finish_job cut_config no_settings example_job ''style_a'' example_profile
                 default_auto default_review (3, 3)
                 ([example_audit 0, example_audit 1],
                  [FillRectangle 0 (fin_box 250 50 100 50) white,
                   FillRectangle 1 (fin_box 250 50 100 50) white])
           = example_outcome"
    unfolding finish_job_def Let_def n
    by (simp add: s example_outcome_def is_removed_def example_audit_def example_job_def cut_config_def)
  finally show ?thesis .
qed

theorem processPdf_summary_counts_witness:
  "processPdf cut_config no_settings example_job = Inr example_outcome \<and>
   removedCount (jo_result example_outcome) = 2 \<and>
   \<not> hasReview (jo_result example_outcome) \<and>
   statusHint (ad_summary (jo_audit example_outcome)) = ''completed'' \<and>
   map pageNumber (ad_pages (jo_audit example_outcome)) = [1, 2]"
proof -
  note t = processPdf_summary_counts[OF processPdf_cut]
  have "pagesProcessed (jo_result example_outcome) = fin_int 2"
    by (simp add: example_outcome_def fin_int_def)
  with t have "map pageNumber (ad_pages (jo_audit example_outcome)) = [1..<nat 2 + 1]"
    unfolding Let_def by blast
  then have "map pageNumber (ad_pages (jo_audit example_outcome)) = [1, 2]"
    by (simp add: upt_rec)
  then show ?thesis using processPdf_cut by (simp add: example_outcome_def)
qed

theorem processPdf_page_cap_witness:
  "processPdf cut_config no_settings example_job = Inr example_outcome \<and>
   page_cap_spec cut_config 3 = Fin 2 \<and>
   pagesTotal (jo_result example_outcome) = Fin 2 \<and>
   map pageNumber (ad_pages (jo_audit example_outcome)) = [1, 2] \<and>
   list_all (\<lambda>c. int (op_page c) < 2) (jo_draws example_outcome) \<and>
   totalPagesInPdf (ad_summary (jo_audit example_outcome)) = 3"
proof -
  have d: "je_document example_job = Inr (3, 3)" by (simp add: example_job_def)
  have cap: "page_cap_spec cut_config 3 = Fin 2"
    by (simp add: page_cap_spec_def cut_config_def fin_nat_def Math_min_def js_gt_def)
  then have cap': "page_cap_spec cut_config (min (fst (3::nat, 3::nat)) (snd (3::nat, 3::nat))) = fin_int 2"
    by (simp add: fin_int_def)
  from processPdf_page_cap[OF processPdf_cut d] cap'
  have "map pageNumber (ad_pages (jo_audit example_outcome)) = [1..<nat 2 + 1] \<and>
        list_all (\<lambda>c. int (op_page c) < 2) (jo_draws example_outcome)"
    unfolding Let_def by blast
  then have "map pageNumber (ad_pages (jo_audit example_outcome)) = [1, 2] \<and>
        list_all (\<lambda>c. int (op_page c) < 2) (jo_draws example_outcome)"
    by (simp add: upt_rec)
  then show ?thesis using processPdf_cut cap by (simp add: example_outcome_def)
qed

subsection \<open>Jobs without templates\<close>

lemma variants_of_discarded:
  assumes "variants_discarded dir file ws" and "variants_of dir file ws = Inr ts"
  shows "ts = []"
  using assms unfolding variants_discarded_def
  by (induction ws arbitrary: ts) (auto split: sum.splits if_splits)

lemma templates_of_discarded:
  assumes "all_variants_discarded dir files" and "list_all is_image_name files"
    and "templates_of dir files = Inr ts"
  shows "ts = []"
  using assms
proof (induction files arbitrary: ts)
  case Nil
  then show ?case by simp
next
  case (Cons f files)
  from Cons.prems(1,2) have t: "all_variants_discarded dir files" "list_all is_image_name files"
    and h: "case trimmed_meta dir f of
              Inl e \<Rightarrow> True
            | Inr (w, h) \<Rightarrow> w = 0 \<or> h = 0 \<or> variants_discarded dir f target_widths"
    by (simp_all add: all_variants_discarded_def)
  show ?case
    using Cons.prems(3) Cons.IH[OF t] h variants_of_discarded[of dir f target_widths]
    by (auto split: sum.splits prod.splits if_splits)
qed

lemma all_variants_discarded_filter:
  "all_variants_discarded dir (filter is_image_name names) = all_variants_discarded dir names"
  by (simp add: all_variants_discarded_def)

lemma loadLogoTemplates_fails:
  assumes "dir_names dir = Inr names"
    and "filter is_image_name names = [] \<or> all_variants_discarded dir names"
  shows "\<exists>e. loadLogoTemplates dir = Inl e"
proof (cases "filter is_image_name names = []")
  case True
  then show ?thesis using assms(1) by (simp add: loadLogoTemplates_def)
next
  case False
  with assms(2) have a: "all_variants_discarded dir names" by simp
  show ?thesis
  proof (cases "templates_of dir (filter is_image_name names)")
    case (Inl e)
    then show ?thesis using assms(1) False by (simp add: loadLogoTemplates_def)
  next
    case (Inr ts)
    have i: "list_all is_image_name (filter is_image_name names)"
      by (simp add: list_all_iff)
    from a have a': "all_variants_discarded dir (filter is_image_name names)"
      by (simp add: all_variants_discarded_filter)
    with templates_of_discarded[OF a' i Inr] Inr
    show ?thesis using assms(1) False by (simp add: loadLogoTemplates_def)
  qed
qed

text \<open>
  C5: when the deterministic matcher is selected (the detector mode is \<open>deterministic\<close>, or
  any other than \<open>ai-probe\<close> and \<open>ai-cut\<close>) and the reference directory lists no name
  ending in \<open>.png\<close>, \<open>.jpg\<close> or \<open>.jpeg\<close>, or every variant produced for its images is
  discarded (a width below 40, a height below 12, or fewer than 40 edge pixels),
  \<open>processPdf\<close> fails with an error and has started no page.
\<close>

theorem processPdf_fails_without_templates:
  assumes "detectorMode cfg = ''deterministic'' \<or> \<not> useAiDetector cfg"
    and "dir_names (je_refs env) = Inr names"
    and "filter is_image_name names = [] \<or> all_variants_discarded (je_refs env) names"
  shows "\<exists>e. processPdf cfg st env = Inl \<lparr> fail_error = e, fail_pages_started = 0 \<rparr>"
proof -
  from loadLogoTemplates_fails[OF assms(2,3)] obtain e where "loadLogoTemplates (je_refs env) = Inl e"
    by blast
  moreover from assms(1) have "\<not> useAiDetector cfg"
    by (auto simp: useAiDetector_def)
  ultimately show ?thesis
    by (simp add: processPdf_def Let_def before_pages_def)
qed

theorem processPdf_fails_without_templates_witness:
  "processPdf deterministic_config no_settings (example_job \<lparr> je_refs := no_image_dir \<rparr>) =
     Inl \<lparr> fail_error = NoLogoReferences, fail_pages_started = 0 \<rparr> \<and>
   processPdf deterministic_config no_settings example_job =
     Inl \<lparr> fail_error = NoUsableTemplates, fail_pages_started = 0 \<rparr>"
proof -
  have d: "detectorMode deterministic_config = ''deterministic'' \<or> \<not> useAiDetector deterministic_config"
    by (simp add: deterministic_config_def cut_config_def)
  have u: "\<not> useAiDetector deterministic_config"
    by (simp add: useAiDetector_def deterministic_config_def cut_config_def)
  have 1: "\<exists>e. processPdf deterministic_config no_settings (example_job \<lparr> je_refs := no_image_dir \<rparr>) =
     Inl \<lparr> fail_error = e, fail_pages_started = 0 \<rparr>"
    by (rule processPdf_fails_without_templates[OF d, where names="[''notes.txt'']"])
       (simp_all add: no_image_dir_def one_image_dir_def image_names)
  have 2: "\<exists>e. processPdf deterministic_config no_settings example_job =
     Inl \<lparr> fail_error = e, fail_pages_started = 0 \<rparr>"
    by (rule processPdf_fails_without_templates[OF d, where names="[''logo.png'']"])
       (simp_all add: example_job_def one_image_dir_def image_names all_variants_discarded_def
          variants_discarded_def target_widths_def variant_discarded_def)
  have l1: "loadLogoTemplates no_image_dir = Inl NoLogoReferences"
    by (simp add: loadLogoTemplates_def no_image_dir_def one_image_dir_def image_names)
  have l2: "loadLogoTemplates one_image_dir = Inl NoUsableTemplates"
    by (simp add: loadLogoTemplates_def one_image_dir_def image_names target_widths_def variant_discarded_def)
  from 1 2 show ?thesis
    by (auto simp: processPdf_def Let_def u l1 l2 example_job_def before_pages_def)
qed


end
